theory Spec2Isabelle
  imports Complex_Main
begin

section \<open>Errors\<close>

text \<open>
  The two ways a request handler of \<open>main.py\<close> stops early: the \<open>HTTPException\<close> it
  raises itself (status code and detail), and a \<open>ValueError\<close> of the standard library
  that no handler catches.
\<close>

datatype error = HTTPException nat string | ValueError

section \<open>The standard library's datetime\<close>

text \<open>
  A naive \<open>datetime\<close> with the fields of Python's class. The functions below are the
  part of the standard library that \<open>month_bounds\<close> relies on: the calendar helpers,
  the validating constructor, \<open>replace\<close>, comparison (field by field, as Python
  compares the tuples) and subtraction into a normalised \<open>timedelta\<close>.
\<close>

record datetime =
  year :: int
  month :: int
  day :: int
  hour :: int
  minute :: int
  second :: int
  microsecond :: int

record timedelta =
  days :: int
  seconds :: int
  microseconds :: int

definition MINYEAR :: int where "MINYEAR = 1"
definition MAXYEAR :: int where "MAXYEAR = 9999"

definition is_leap :: "int \<Rightarrow> bool" where
  "is_leap y \<longleftrightarrow> y mod 4 = 0 \<and> (y mod 100 \<noteq> 0 \<or> y mod 400 = 0)"

definition days_before_year :: "int \<Rightarrow> int" where
  "days_before_year y = (let p = y - 1 in p * 365 + p div 4 - p div 100 + p div 400)"

definition DAYS_IN_MONTH :: "int list" where
  "DAYS_IN_MONTH = [31, 28, 31, 30, 31, 30, 31, 31, 30, 31, 30, 31]"

definition days_in_month :: "int \<Rightarrow> int \<Rightarrow> int" where
  "days_in_month y m =
     (if m = 2 \<and> is_leap y then 29 else DAYS_IN_MONTH ! nat (m - 1))"

definition days_before_month :: "int \<Rightarrow> int \<Rightarrow> int" where
  "days_before_month y m =
     sum_list (take (nat (m - 1)) DAYS_IN_MONTH) + (if m > 2 \<and> is_leap y then 1 else 0)"

definition ymd2ord :: "int \<Rightarrow> int \<Rightarrow> int \<Rightarrow> int" where
  "ymd2ord y m d = days_before_year y + days_before_month y m + d"

definition datetime_new ::
  "int \<Rightarrow> int \<Rightarrow> int \<Rightarrow> int \<Rightarrow> int \<Rightarrow> int \<Rightarrow> int \<Rightarrow> error + datetime" where
  "datetime_new y m d hh mm ss us =
     (if \<not> (MINYEAR \<le> y \<and> y \<le> MAXYEAR) then Inl ValueError
      else if \<not> (1 \<le> m \<and> m \<le> 12) then Inl ValueError
      else if \<not> (1 \<le> d \<and> d \<le> days_in_month y m) then Inl ValueError
      else if \<not> (0 \<le> hh \<and> hh \<le> 23) then Inl ValueError
      else if \<not> (0 \<le> mm \<and> mm \<le> 59) then Inl ValueError
      else if \<not> (0 \<le> ss \<and> ss \<le> 59) then Inl ValueError
      else if \<not> (0 \<le> us \<and> us \<le> 999999) then Inl ValueError
      else Inr \<lparr>year = y, month = m, day = d, hour = hh, minute = mm, second = ss,
                microsecond = us\<rparr>)"

text \<open>\<open>dt.replace(year=y, month=m, day=d)\<close>: a new, validated datetime.\<close>

definition replace_ymd :: "datetime \<Rightarrow> int \<Rightarrow> int \<Rightarrow> int \<Rightarrow> error + datetime" where
  "replace_ymd dt y m d = datetime_new y m d (hour dt) (minute dt) (second dt) (microsecond dt)"

definition dt_key :: "datetime \<Rightarrow> int list" where
  "dt_key dt = [year dt, month dt, day dt, hour dt, minute dt, second dt, microsecond dt]"

fun key_lt :: "int list \<Rightarrow> int list \<Rightarrow> bool" where
  "key_lt [] [] = False"
| "key_lt [] (y # ys) = True"
| "key_lt (x # xs) [] = False"
| "key_lt (x # xs) (y # ys) = (x < y \<or> (x = y \<and> key_lt xs ys))"

definition dt_lt :: "datetime \<Rightarrow> datetime \<Rightarrow> bool" where
  "dt_lt a b \<longleftrightarrow> key_lt (dt_key a) (dt_key b)"

definition dt_le :: "datetime \<Rightarrow> datetime \<Rightarrow> bool" where
  "dt_le a b \<longleftrightarrow> \<not> key_lt (dt_key b) (dt_key a)"

definition timedelta_new :: "int \<Rightarrow> int \<Rightarrow> int \<Rightarrow> timedelta" where
  "timedelta_new d s us =
     (let s1 = s + us div 1000000;
          d1 = d + s1 div 86400
      in \<lparr>days = d1, seconds = s1 mod 86400, microseconds = us mod 1000000\<rparr>)"

definition dt_sub :: "datetime \<Rightarrow> datetime \<Rightarrow> timedelta" where
  "dt_sub a b =
     timedelta_new
       (ymd2ord (year a) (month a) (day a) - ymd2ord (year b) (month b) (day b))
       ((second a + minute a * 60 + hour a * 3600) - (second b + minute b * 60 + hour b * 3600))
       (microsecond a - microsecond b)"

section \<open>strptime with the format \<open>%Y-%m-%d\<close>\<close>

text \<open>
  \<open>strptime\<close> compiles the format into the regular expression
  \<^verbatim>\<open>(?P<Y>\d\d\d\d)-(?P<m>1[0-2]|0[1-9]|[1-9])-(?P<d>3[0-1]|[1-2]\d|0[1-9]|[1-9]| [1-9])\<close>,
  matches it at the start of the string, and raises when nothing matches or when the
  match leaves characters over. Each matcher below returns the ways its pattern can
  match a prefix, with the rest of the string, in the order the backtracking engine
  tries them; the first complete match is the one \<open>strptime\<close> uses. Characters are code
  points below 256, where \<^verbatim>\<open>\d\<close> is exactly \<open>0\<close> to \<open>9\<close>.
\<close>

definition in_range :: "char \<Rightarrow> char \<Rightarrow> char \<Rightarrow> bool" where
  "in_range lo hi c \<longleftrightarrow> (of_char lo :: nat) \<le> of_char c \<and> (of_char c :: nat) \<le> of_char hi"

definition is_digit :: "char \<Rightarrow> bool" where
  "is_digit c = in_range (CHR ''0'') (CHR ''9'') c"

definition digit_val :: "char \<Rightarrow> int" where
  "digit_val c = int (of_char c) - 48"

text \<open>\<open>int(s)\<close> on a string of decimal digits.\<close>

definition int_of_digits :: "string \<Rightarrow> int" where
  "int_of_digits s = foldl (\<lambda>acc c. acc * 10 + digit_val c) 0 s"

fun match_Y :: "string \<Rightarrow> (string \<times> string) list" where
  "match_Y (a # b # c # d # rest) =
     (if is_digit a \<and> is_digit b \<and> is_digit c \<and> is_digit d then [([a, b, c, d], rest)] else [])"
| "match_Y _ = []"

fun match_lit :: "char \<Rightarrow> string \<Rightarrow> string list" where
  "match_lit x (c # rest) = (if c = x then [rest] else [])"
| "match_lit x [] = []"

text \<open>One alternative made of two character classes, and one made of a single class.\<close>

fun match_two :: "(char \<Rightarrow> bool) \<Rightarrow> (char \<Rightarrow> bool) \<Rightarrow> string \<Rightarrow> (string \<times> string) list" where
  "match_two p q (a # b # rest) = (if p a \<and> q b then [([a, b], rest)] else [])"
| "match_two p q _ = []"

fun match_one :: "(char \<Rightarrow> bool) \<Rightarrow> string \<Rightarrow> (string \<times> string) list" where
  "match_one p (a # rest) = (if p a then [([a], rest)] else [])"
| "match_one p [] = []"

definition match_m :: "string \<Rightarrow> (string \<times> string) list" where
  "match_m s =
     match_two (\<lambda>c. c = CHR ''1'') (in_range (CHR ''0'') (CHR ''2'')) s @
     match_two (\<lambda>c. c = CHR ''0'') (in_range (CHR ''1'') (CHR ''9'')) s @
     match_one (in_range (CHR ''1'') (CHR ''9'')) s"

definition match_d :: "string \<Rightarrow> (string \<times> string) list" where
  "match_d s =
     match_two (\<lambda>c. c = CHR ''3'') (in_range (CHR ''0'') (CHR ''1'')) s @
     match_two (in_range (CHR ''1'') (CHR ''2'')) is_digit s @
     match_two (\<lambda>c. c = CHR ''0'') (in_range (CHR ''1'') (CHR ''9'')) s @
     match_one (in_range (CHR ''1'') (CHR ''9'')) s @
     match_two (\<lambda>c. c = CHR '' '') (in_range (CHR ''1'') (CHR ''9'')) s"

text \<open>All matches of the whole expression, first choice first: the groups and the rest.\<close>

definition regex_Ymd :: "string \<Rightarrow> (string \<times> string \<times> string \<times> string) list" where
  "regex_Ymd s =
     concat (map (\<lambda>(gy, r1).
       concat (map (\<lambda>r2.
         concat (map (\<lambda>(gm, r3).
           concat (map (\<lambda>r4.
             map (\<lambda>(gd, r5). (gy, gm, gd, r5)) (match_d r4))
           (match_lit (CHR ''-'') r3)))
         (match_m r2)))
       (match_lit (CHR ''-'') r1)))
     (match_Y s))"

definition strip_space :: "string \<Rightarrow> string" where
  "strip_space s = filter (\<lambda>c. c \<noteq> CHR '' '') s"

definition strptime_Ymd :: "string \<Rightarrow> error + datetime" where
  "strptime_Ymd s =
     (case regex_Ymd s of
        [] \<Rightarrow> Inl ValueError
      | (gy, gm, gd, rest) # _ \<Rightarrow>
          if rest \<noteq> [] then Inl ValueError
          else datetime_new (int_of_digits gy) (int_of_digits gm)
                 (int_of_digits (strip_space gd)) 0 0 0 0)"

section \<open>The period resolver\<close>

definition month_bounds :: "string \<Rightarrow> error + (datetime \<times> datetime)" where
  "month_bounds period =
     (case strptime_Ymd (period @ ''-01'') of
        Inl _ \<Rightarrow> Inl (HTTPException 400 ''Invalid period. Use YYYY-MM'')
      | Inr start \<Rightarrow>
          (case (if month start = 12
                 then replace_ymd start (year start + 1) 1 1
                 else replace_ymd start (year start) (month start + 1) 1) of
             Inl e \<Rightarrow> Inl e
           | Inr end \<Rightarrow> Inr (start, end)))"

section \<open>Floating-point arithmetic\<close>

text \<open>
  Python's \<open>float\<close> is left open: the handlers take the operations they use on floats
  as a parameter, so that what is proved of them holds for whatever these operations
  compute. \<open>float_of_int n\<close> is \<open>float(n)\<close>, \<open>fadd\<close> and \<open>fmul\<close> are \<open>+\<close> and \<open>*\<close> on
  floats, \<open>truediv a b\<close> is the quotient \<open>a / b\<close> of two integers, and \<open>round6 x\<close> is
  \<open>round(x, 6)\<close>.
\<close>

record 'f float_ops =
  float_of_int :: "int \<Rightarrow> 'f"
  fadd :: "'f \<Rightarrow> 'f \<Rightarrow> 'f"
  fmul :: "'f \<Rightarrow> 'f \<Rightarrow> 'f"
  truediv :: "int \<Rightarrow> int \<Rightarrow> 'f"
  round6 :: "'f \<Rightarrow> 'f"

text \<open>
  Arithmetic without rounding error, on the rationals; \<open>round(x, 6)\<close> rounds half to
  even. Concrete reports are evaluated with it.
\<close>

definition round_half_even :: "rat \<Rightarrow> int" where
  "round_half_even x =
     (let f = \<lfloor>x\<rfloor>; r = x - of_int f
      in if r < 1 / 2 then f
         else if 1 / 2 < r then f + 1
         else if even f then f else f + 1)"

definition exact_ops :: "rat float_ops" where
  "exact_ops =
     \<lparr>float_of_int = of_int,
      fadd = (+),
      fmul = (*),
      truediv = (\<lambda>a b. of_int a / of_int b),
      round6 = (\<lambda>x. of_int (round_half_even (x * 1000000)) / 1000000)\<rparr>"

section \<open>The record store\<close>

text \<open>
  The documents of each collection, with the fields the request models of \<open>main.py\<close>
  write (\<open>ApiServiceIn\<close>, \<open>PlanIn\<close>, \<open>ConsumerIn\<close>, \<open>SubscriptionIn\<close>, \<open>UsageEventIn\<close>).
  A plan is stored with the string form of its \<open>_id\<close>. A subscription and a usage event
  always carry their date: the handlers that store them fill it in when it is absent.
\<close>

record api_service =
  api_name :: string
  version :: string
  owner :: "string option"
  lifecycle_stage :: string
  rate_limit_per_min :: "int option"
  api_status :: string

record 'f plan =
  plan_name :: string
  tier :: string
  monthly_price :: 'f
  included_calls :: int
  overage_price_per_call :: 'f

record consumer =
  consumer_name :: string
  email :: string
  company :: "string option"
  consumer_plan_id :: "string option"

record subscription =
  sub_consumer_id :: string
  sub_api_id :: string
  sub_plan_id :: string
  start_date :: datetime
  status :: string

record usage_event =
  ue_api_id :: string
  ue_consumer_id :: string
  timestamp :: datetime
  latency_ms :: "int option"
  status_code :: int
  bytes_in :: "int option"
  bytes_out :: "int option"

datatype collection = Apiservice | Plan | Consumer | Subscription | Usageevent

datatype access =
    Find collection
  | CountDocuments collection
  | Aggregate collection
  | InsertOne collection
  | UpdateOne collection

text \<open>
  The store is the five collections and the log of the operations performed on it, in
  order. Every operation takes the store and returns it with its result.
\<close>

record 'f database =
  apiservice_coll :: "api_service list"
  plan_coll :: "(string \<times> 'f plan) list"
  consumer_coll :: "consumer list"
  subscription_coll :: "subscription list"
  usageevent_coll :: "usage_event list"
  oplog :: "access list"

definition logged :: "access \<Rightarrow> 'f database \<Rightarrow> 'f database" where
  "logged a db = db\<lparr>oplog := oplog db @ [a]\<rparr>"

subsection \<open>Filters\<close>

text \<open>
  A filter document is a conjunction: an optional equality per string field, and a list
  of bounds on the date field (\<open>$gte\<close>, \<open>$gt\<close>, \<open>$lt\<close>, \<open>$lte\<close>). The empty filter \<open>{}\<close>
  matches every document.
\<close>

datatype bound = Gte datetime | Gt datetime | Lt datetime | Lte datetime

fun bound_holds :: "bound \<Rightarrow> datetime \<Rightarrow> bool" where
  "bound_holds (Gte b) t = dt_le b t"
| "bound_holds (Gt b) t = dt_lt b t"
| "bound_holds (Lt b) t = dt_lt t b"
| "bound_holds (Lte b) t = dt_le t b"

definition field_eq :: "string option \<Rightarrow> string \<Rightarrow> bool" where
  "field_eq q v = (case q of None \<Rightarrow> True | Some w \<Rightarrow> v = w)"

record usage_filter =
  q_consumer_id :: "string option"
  q_api_id :: "string option"
  q_timestamp :: "bound list"

record subscription_filter =
  q_status :: "string option"
  q_start_date :: "bound list"

definition usage_matches :: "usage_filter \<Rightarrow> usage_event \<Rightarrow> bool" where
  "usage_matches q e \<longleftrightarrow>
     field_eq (q_consumer_id q) (ue_consumer_id e) \<and>
     field_eq (q_api_id q) (ue_api_id e) \<and>
     list_all (\<lambda>b. bound_holds b (timestamp e)) (q_timestamp q)"

definition subscription_matches :: "subscription_filter \<Rightarrow> subscription \<Rightarrow> bool" where
  "subscription_matches q s \<longleftrightarrow>
     field_eq (q_status q) (status s) \<and>
     list_all (\<lambda>b. bound_holds b (start_date s)) (q_start_date q)"

subsection \<open>Operations\<close>

definition find_plan :: "'f database \<Rightarrow> (string \<times> 'f plan) list \<times> 'f database" where
  "find_plan db = (plan_coll db, logged (Find Plan) db)"

definition find_subscription ::
  "subscription_filter \<Rightarrow> 'f database \<Rightarrow> subscription list \<times> 'f database" where
  "find_subscription q db =
     (filter (subscription_matches q) (subscription_coll db), logged (Find Subscription) db)"

definition count_usageevent :: "usage_filter \<Rightarrow> 'f database \<Rightarrow> int \<times> 'f database" where
  "count_usageevent q db =
     (int (length (filter (usage_matches q) (usageevent_coll db))),
      logged (CountDocuments Usageevent) db)"

definition count_subscription ::
  "subscription_filter \<Rightarrow> 'f database \<Rightarrow> int \<times> 'f database" where
  "count_subscription q db =
     (int (length (filter (subscription_matches q) (subscription_coll db))),
      logged (CountDocuments Subscription) db)"

definition count_apiservice :: "'f database \<Rightarrow> int \<times> 'f database" where
  "count_apiservice db = (int (length (apiservice_coll db)), logged (CountDocuments Apiservice) db)"

definition count_consumer :: "'f database \<Rightarrow> int \<times> 'f database" where
  "count_consumer db = (int (length (consumer_coll db)), logged (CountDocuments Consumer) db)"

text \<open>
  The aggregation pipeline of the metrics: \<open>$match\<close> with the filter, then one \<open>$group\<close>
  over everything that matched. No matching document gives no group. \<open>$avg\<close> skips the
  documents whose latency is null and is null when it has skipped them all.
\<close>

record 'f usage_group =
  avg_latency :: "'f option"
  success :: int
  total :: int

definition mongo_avg :: "'f float_ops \<Rightarrow> int option list \<Rightarrow> 'f option" where
  "mongo_avg ops xs =
     (case concat (map (\<lambda>x. case x of None \<Rightarrow> [] | Some v \<Rightarrow> [v]) xs) of
        [] \<Rightarrow> None
      | v # vs \<Rightarrow> Some (truediv ops (sum_list (v # vs)) (int (length (v # vs)))))"

definition aggregate_usageevent ::
  "'f float_ops \<Rightarrow> usage_filter \<Rightarrow> 'f database \<Rightarrow> 'f usage_group list \<times> 'f database" where
  "aggregate_usageevent ops q db =
     (let matched = filter (usage_matches q) (usageevent_coll db)
      in ((if matched = [] then []
           else [\<lparr>avg_latency = mongo_avg ops (map latency_ms matched),
                  success = sum_list (map (\<lambda>e. if status_code e < 400 then 1 else 0) matched),
                  total = sum_list (map (\<lambda>e. 1) matched)\<rparr>]),
          logged (Aggregate Usageevent) db))"

section \<open>The metrics overview\<close>

record 'f overview =
  total_calls :: int
  avg_latency_ms :: "'f option"
  success_rate :: "'f option"
  apis :: int
  consumers :: int
  active_subscriptions :: int

definition no_filter :: usage_filter where
  "no_filter = \<lparr>q_consumer_id = None, q_api_id = None, q_timestamp = []\<rparr>"

text \<open>\<open>if period:\<close> is false for an absent parameter and for the empty string.\<close>

definition overview_filter :: "string option \<Rightarrow> error + usage_filter" where
  "overview_filter period =
     (case period of
        None \<Rightarrow> Inr no_filter
      | Some p \<Rightarrow>
          if p = [] then Inr no_filter
          else (case month_bounds p of
                  Inl e \<Rightarrow> Inl e
                | Inr (start, end) \<Rightarrow>
                    Inr \<lparr>q_consumer_id = None, q_api_id = None,
                         q_timestamp = [Gte start, Lt end]\<rparr>))"

definition metrics_overview ::
  "'f float_ops \<Rightarrow> string option \<Rightarrow> 'f database \<Rightarrow> (error + 'f overview) \<times> 'f database" where
  "metrics_overview ops period db =
     (case overview_filter period of
        Inl e \<Rightarrow> (Inl e, db)
      | Inr filt \<Rightarrow>
          (let (n_calls, db1) = count_usageevent filt db;
               (agg, db2) = aggregate_usageevent ops filt db1;
               avg = (case agg of [] \<Rightarrow> None | g # _ \<Rightarrow> avg_latency g);
               succ = (case agg of [] \<Rightarrow> 0 | g # _ \<Rightarrow> success g);
               rate = (if n_calls \<noteq> 0 then Some (truediv ops succ n_calls) else None);
               (n_apis, db3) = count_apiservice db2;
               (n_consumers, db4) = count_consumer db3;
               (n_active, db5) =
                 count_subscription \<lparr>q_status = Some ''active'', q_start_date = []\<rparr> db4
           in (Inr \<lparr>total_calls = n_calls, avg_latency_ms = avg, success_rate = rate,
                    apis = n_apis, consumers = n_consumers, active_subscriptions = n_active\<rparr>,
               db5)))"

section \<open>The chargeback report\<close>

record 'f chargeback_line =
  cb_consumer_id :: string
  cb_api_id :: string
  cb_plan_id :: string
  cb_period :: string
  calls :: int
  overage_calls :: int
  amount :: 'f

record 'f chargeback =
  report_period :: string
  items :: "'f chargeback_line list"

text \<open>The dict comprehension over the plans: a later document replaces an earlier one.\<close>

definition plans_dict :: "(string \<times> 'f plan) list \<Rightarrow> (string \<rightharpoonup> 'f plan)" where
  "plans_dict docs = fold (\<lambda>(k, p) m. m(k \<mapsto> p)) docs Map.empty"

text \<open>
  The plan used when the lookup finds nothing. The source's dict has the three numeric
  keys only, each the integer 0, read through \<open>float(...)\<close> and \<open>int(...)\<close>; name and
  tier are never read.
\<close>

definition fallback_plan :: "'f float_ops \<Rightarrow> 'f plan" where
  "fallback_plan ops =
     \<lparr>plan_name = [], tier = [], monthly_price = float_of_int ops 0, included_calls = 0,
      overage_price_per_call = float_of_int ops 0\<rparr>"

definition resolve_plan :: "'f float_ops \<Rightarrow> (string \<rightharpoonup> 'f plan) \<Rightarrow> string \<Rightarrow> 'f plan" where
  "resolve_plan ops plans plan_id =
     (case plans plan_id of None \<Rightarrow> fallback_plan ops | Some p \<Rightarrow> p)"

definition period_filter :: "subscription \<Rightarrow> datetime \<Rightarrow> datetime \<Rightarrow> usage_filter" where
  "period_filter s start end =
     \<lparr>q_consumer_id = Some (sub_consumer_id s), q_api_id = Some (sub_api_id s),
      q_timestamp = [Gte start, Lt end]\<rparr>"

text \<open>The loop over the selected subscriptions, one count query each.\<close>

fun chargeback_items ::
  "'f float_ops \<Rightarrow> (string \<rightharpoonup> 'f plan) \<Rightarrow> datetime \<Rightarrow> datetime \<Rightarrow> string \<Rightarrow>
   subscription list \<Rightarrow> 'f database \<Rightarrow> 'f chargeback_line list \<times> 'f database" where
  "chargeback_items ops plans start end period [] db = ([], db)"
| "chargeback_items ops plans start end period (s # subs) db =
     (let plan = resolve_plan ops plans (sub_plan_id s);
          (usage_count, db1) = count_usageevent (period_filter s start end) db;
          included = included_calls plan;
          overage = max 0 (usage_count - included);
          amt = fadd ops (monthly_price plan)
                  (fmul ops (float_of_int ops overage) (overage_price_per_call plan));
          line = \<lparr>cb_consumer_id = sub_consumer_id s, cb_api_id = sub_api_id s,
                  cb_plan_id = sub_plan_id s, cb_period = period, calls = usage_count,
                  overage_calls = overage, amount = round6 ops amt\<rparr>;
          (rest, db2) = chargeback_items ops plans start end period subs db1
      in (line # rest, db2))"

definition active_filter :: "datetime \<Rightarrow> subscription_filter" where
  "active_filter end = \<lparr>q_status = Some ''active'', q_start_date = [Lte end]\<rparr>"

definition chargeback_report ::
  "'f float_ops \<Rightarrow> string \<Rightarrow> 'f database \<Rightarrow> (error + 'f chargeback) \<times> 'f database" where
  "chargeback_report ops period db =
     (case month_bounds period of
        Inl e \<Rightarrow> (Inl e, db)
      | Inr (start, end) \<Rightarrow>
          (let (docs, db1) = find_plan db;
               plans = plans_dict docs;
               (subs, db2) = find_subscription (active_filter end) db1;
               (report, db3) = chargeback_items ops plans start end period subs db2
           in (Inr \<lparr>report_period = period, items = report\<rparr>, db3)))"

text \<open>The line the loop body builds for one subscription, given the stored usage events.\<close>

definition line_of ::
  "'f float_ops \<Rightarrow> (string \<rightharpoonup> 'f plan) \<Rightarrow> datetime \<Rightarrow> datetime \<Rightarrow> string \<Rightarrow>
   usage_event list \<Rightarrow> subscription \<Rightarrow> 'f chargeback_line" where
  "line_of ops plans start end period events s =
     (let plan = resolve_plan ops plans (sub_plan_id s);
          usage_count = int (length (filter (usage_matches (period_filter s start end)) events));
          overage = max 0 (usage_count - included_calls plan)
      in \<lparr>cb_consumer_id = sub_consumer_id s, cb_api_id = sub_api_id s,
          cb_plan_id = sub_plan_id s, cb_period = period, calls = usage_count,
          overage_calls = overage,
          amount = round6 ops (fadd ops (monthly_price plan)
                     (fmul ops (float_of_int ops overage) (overage_price_per_call plan)))\<rparr>)"

section \<open>Period tokens\<close>

text \<open>
  A token of the form \<open>YYYY-MM\<close>: four digits, a hyphen, two digits, with the month
  between 01 and 12 and a year that exists (Python's calendar starts at year 1). The
  first instant of a month, and the first instant of the month after it.
\<close>

definition first_instant :: "int \<Rightarrow> int \<Rightarrow> datetime" where
  "first_instant y m =
     \<lparr>year = y, month = m, day = 1, hour = 0, minute = 0, second = 0, microsecond = 0\<rparr>"

definition period_year :: "string \<Rightarrow> int" where
  "period_year tok = int_of_digits (take 4 tok)"

definition period_month :: "string \<Rightarrow> int" where
  "period_month tok = int_of_digits (drop 5 tok)"

definition is_YYYY_MM :: "string \<Rightarrow> bool" where
  "is_YYYY_MM tok \<longleftrightarrow>
     length tok = 7 \<and> list_all is_digit (take 4 tok) \<and> tok ! 4 = CHR ''-'' \<and>
     list_all is_digit (drop 5 tok) \<and>
     1 \<le> period_month tok \<and> period_month tok \<le> 12 \<and> 1 \<le> period_year tok"

definition next_month :: "int \<Rightarrow> int \<Rightarrow> datetime" where
  "next_month y m = (if m = 12 then first_instant (y + 1) 1 else first_instant y (m + 1))"

text \<open>
  The tokens that \<open>strptime\<close> lets through: as above, but the month may also be written
  with one digit, from 1 to 9.
\<close>

definition strptime_accepts :: "string \<Rightarrow> bool" where
  "strptime_accepts tok \<longleftrightarrow>
     (length tok = 6 \<or> length tok = 7) \<and> list_all is_digit (take 4 tok) \<and>
     tok ! 4 = CHR ''-'' \<and> list_all is_digit (drop 5 tok) \<and>
     1 \<le> period_month tok \<and> period_month tok \<le> 12 \<and> 1 \<le> period_year tok"

section \<open>The selection rule and the usage count, in the specification's words\<close>

text \<open>
  The half-open interval \<open>[start, end)\<close>; the subscriptions a report is about (status
  \<open>active\<close>, started no later than the end of the period); and the number of usage
  events of one subscription's API and consumer inside the period.
\<close>

definition in_period :: "datetime \<Rightarrow> datetime \<Rightarrow> datetime \<Rightarrow> bool" where
  "in_period start end t \<longleftrightarrow> dt_le start t \<and> dt_lt t end"

definition selected :: "datetime \<Rightarrow> subscription list \<Rightarrow> subscription list" where
  "selected end subs = filter (\<lambda>s. status s = ''active'' \<and> dt_le (start_date s) end) subs"

definition usage_in_period ::
  "subscription \<Rightarrow> datetime \<Rightarrow> datetime \<Rightarrow> usage_event list \<Rightarrow> int" where
  "usage_in_period s start end events =
     int (length (filter (\<lambda>e. ue_api_id e = sub_api_id s \<and> ue_consumer_id e = sub_consumer_id s \<and>
                               in_period start end (timestamp e)) events))"

text \<open>The latencies that the events of a list carry, nulls left out.\<close>

definition latencies :: "usage_event list \<Rightarrow> int list" where
  "latencies es = concat (map (\<lambda>e. case latency_ms e of None \<Rightarrow> [] | Some v \<Rightarrow> [v]) es)"

text \<open>
  The two facts about floating-point zero that the amount of a plan-less line rests on:
  \<open>0.0 + float(n) * 0.0\<close> is \<open>0.0\<close>, and \<open>round(0.0, 6)\<close> is \<open>0.0\<close>.
\<close>

definition zero_laws :: "'f float_ops \<Rightarrow> bool" where
  "zero_laws ops \<longleftrightarrow>
     (\<forall>n. fadd ops (float_of_int ops 0) (fmul ops (float_of_int ops n) (float_of_int ops 0)) =
            float_of_int ops 0) \<and>
     round6 ops (float_of_int ops 0) = float_of_int ops 0"

section \<open>An example store\<close>

text \<open>
  Two plans, six subscriptions and seven usage events around January 2024: a
  subscription over its allowance, one without usage whose plan has a price of seven
  decimals, one whose plan no longer exists, a paused one, one that starts exactly at
  the end of the period and one that starts a microsecond later; events exactly at the
  start and at the end of the period, and just before each.
\<close>

definition moment :: "int \<Rightarrow> int \<Rightarrow> int \<Rightarrow> int \<Rightarrow> int \<Rightarrow> int \<Rightarrow> int \<Rightarrow> datetime" where
  "moment y m d hh mm ss us =
     \<lparr>year = y, month = m, day = d, hour = hh, minute = mm, second = ss, microsecond = us\<rparr>"

definition demo_sub :: "string \<Rightarrow> string \<Rightarrow> datetime \<Rightarrow> string \<Rightarrow> subscription" where
  "demo_sub c p d st =
     \<lparr>sub_consumer_id = c, sub_api_id = ''a1'', sub_plan_id = p, start_date = d, status = st\<rparr>"

definition demo_event :: "string \<Rightarrow> datetime \<Rightarrow> int option \<Rightarrow> int \<Rightarrow> usage_event" where
  "demo_event c t l sc =
     \<lparr>ue_api_id = ''a1'', ue_consumer_id = c, timestamp = t, latency_ms = l, status_code = sc,
      bytes_in = Some 0, bytes_out = Some 0\<rparr>"

definition demo_db :: "rat database" where
  "demo_db =
     \<lparr>apiservice_coll =
        [\<lparr>api_name = ''orders'', version = ''v1'', owner = None, lifecycle_stage = ''deploy'',
          rate_limit_per_min = None, api_status = ''healthy''\<rparr>],
      plan_coll =
        [(''p1'', \<lparr>plan_name = ''Basic'', tier = ''basic'', monthly_price = 100,
                   included_calls = 2, overage_price_per_call = 5 / 10000\<rparr>),
         (''p2'', \<lparr>plan_name = ''Metered'', tier = ''pro'', monthly_price = 1234567 / 10000000,
                   included_calls = 10000, overage_price_per_call = 5 / 10000\<rparr>)],
      consumer_coll = [],
      subscription_coll =
        [demo_sub ''c1'' ''p1'' (moment 2023 6 15 9 30 0 0) ''active'',
         demo_sub ''c2'' ''p2'' (moment 2024 1 20 0 0 0 0) ''active'',
         demo_sub ''c3'' ''gone'' (moment 2023 1 1 0 0 0 0) ''active'',
         demo_sub ''c4'' ''p1'' (moment 2023 1 1 0 0 0 0) ''paused'',
         demo_sub ''c5'' ''p1'' (moment 2024 2 1 0 0 0 0) ''active'',
         demo_sub ''c6'' ''p1'' (moment 2024 2 1 0 0 0 1) ''active''],
      usageevent_coll =
        [demo_event ''c1'' (moment 2023 12 31 23 59 59 999999) (Some 5) 200,
         demo_event ''c1'' (moment 2024 1 1 0 0 0 0) (Some 10) 200,
         demo_event ''c1'' (moment 2024 1 10 12 0 0 0) (Some 20) 200,
         demo_event ''c1'' (moment 2024 1 31 23 59 59 999999) None 500,
         demo_event ''c1'' (moment 2024 2 1 0 0 0 0) (Some 7) 200,
         demo_event ''c3'' (moment 2024 1 5 8 0 0 0) (Some 30) 404,
         demo_event ''c3'' (moment 2024 1 6 8 0 0 0) None 200],
      oplog = []\<rparr>"

definition demo_line :: "string \<Rightarrow> string \<Rightarrow> int \<Rightarrow> int \<Rightarrow> rat \<Rightarrow> rat chargeback_line" where
  "demo_line c p n ov a =
     \<lparr>cb_consumer_id = c, cb_api_id = ''a1'', cb_plan_id = p, cb_period = ''2024-01'',
      calls = n, overage_calls = ov, amount = a\<rparr>"

definition demo_chargeback :: "rat chargeback" where
  "demo_chargeback =
     \<lparr>report_period = ''2024-01'',
      items = [demo_line ''c1'' ''p1'' 3 1 (1000005 / 10000),
               demo_line ''c2'' ''p2'' 0 0 (123457 / 1000000),
               demo_line ''c3'' ''gone'' 2 2 0,
               demo_line ''c5'' ''p1'' 0 0 100]\<rparr>"

definition demo_db_after :: "rat database" where
  "demo_db_after =
     demo_db\<lparr>oplog := [Find Plan, Find Subscription, CountDocuments Usageevent,
                         CountDocuments Usageevent, CountDocuments Usageevent,
                         CountDocuments Usageevent]\<rparr>"

text \<open>The overview of January 2024, of January 2023 (no event), and the log after either.\<close>

definition demo_overview :: "rat overview" where
  "demo_overview =
     \<lparr>total_calls = 5, avg_latency_ms = Some 20, success_rate = Some (3 / 5), apis = 1,
      consumers = 0, active_subscriptions = 5\<rparr>"

definition empty_overview :: "rat overview" where
  "empty_overview =
     \<lparr>total_calls = 0, avg_latency_ms = None, success_rate = None, apis = 1,
      consumers = 0, active_subscriptions = 5\<rparr>"

definition demo_db_overviewed :: "rat database" where
  "demo_db_overviewed =
     demo_db\<lparr>oplog := [CountDocuments Usageevent, Aggregate Usageevent,
                         CountDocuments Apiservice, CountDocuments Consumer,
                         CountDocuments Subscription]\<rparr>"

section \<open>What the report computes\<close>

text \<open>
  The loop visits the selected subscriptions in order, builds one line for each, and
  logs one count query for each; the collections stay as they are.
\<close>

lemma chargeback_items_eq:
  "chargeback_items ops plans start end period subs db =
     (map (line_of ops plans start end period (usageevent_coll db)) subs,
      db\<lparr>oplog := oplog db @ replicate (length subs) (CountDocuments Usageevent)\<rparr>)"
proof (induction subs arbitrary: db)
  case Nil
  show ?case by simp
next
  case (Cons s subs)
  show ?case
    by (simp add: Cons.IH count_usageevent_def logged_def line_of_def Let_def)
qed

lemma chargeback_report_eq:
  assumes "month_bounds period = Inr (start, end)"
  shows "chargeback_report ops period db =
     (Inr \<lparr>report_period = period,
           items = map (line_of ops (plans_dict (plan_coll db)) start end period (usageevent_coll db))
                     (filter (subscription_matches (active_filter end)) (subscription_coll db))\<rparr>,
      db\<lparr>oplog := oplog db @ Find Plan # Find Subscription #
              replicate (length (filter (subscription_matches (active_filter end))
                                   (subscription_coll db)))
                (CountDocuments Usageevent)\<rparr>)"
  using assms
  by (simp add: chargeback_report_def find_plan_def find_subscription_def logged_def
        chargeback_items_eq)

lemma chargeback_report_invalid:
  assumes "month_bounds period = Inl e"
  shows "chargeback_report ops period db = (Inl e, db)"
  using assms by (simp add: chargeback_report_def)

lemma active_filter_matches:
  "subscription_matches (active_filter end) s \<longleftrightarrow>
     status s = ''active'' \<and> dt_le (start_date s) end"
  by (simp add: subscription_matches_def active_filter_def field_eq_def)

lemma period_filter_matches:
  "usage_matches (period_filter s start end) e \<longleftrightarrow>
     ue_consumer_id e = sub_consumer_id s \<and> ue_api_id e = sub_api_id s \<and>
     dt_le start (timestamp e) \<and> dt_lt (timestamp e) end"
  by (simp add: usage_matches_def period_filter_def field_eq_def)

lemma plans_dict_dom_aux:
  "dom (fold (\<lambda>(k, p) m. m(k \<mapsto> p)) docs m0) = dom m0 \<union> fst ` set docs"
  by (induction docs arbitrary: m0) (auto simp: case_prod_beta)

lemma plans_dict_None: "plans_dict docs k = None \<longleftrightarrow> k \<notin> fst ` set docs"
proof -
  have "dom (plans_dict docs) = fst ` set docs"
    using plans_dict_dom_aux [of docs Map.empty] by (simp add: plans_dict_def)
  then show ?thesis by (metis domIff)
qed

section \<open>What the period resolver computes\<close>

subsection \<open>The calendar\<close>

lemma month_cases:
  "1 \<le> m \<Longrightarrow> m \<le> 12 \<Longrightarrow>
   m = 1 \<or> m = 2 \<or> m = 3 \<or> m = 4 \<or> m = 5 \<or> m = 6 \<or> m = 7 \<or> m = 8 \<or> m = 9 \<or> m = 10 \<or>
   m = 11 \<or> m = (12::int)"
  by arith

lemma days_in_month_ge:
  assumes "1 \<le> m" "m \<le> 12"
  shows "28 \<le> days_in_month y m"
  using month_cases [OF assms]
  by (auto simp: days_in_month_def DAYS_IN_MONTH_def)

lemma div_offset: "0 \<le> r \<Longrightarrow> r < k \<Longrightarrow> (r + q * k) div k = (q::int)"
  by simp

lemma div_step:
  assumes "0 < k"
  shows "(y::int) div k - (y - 1) div k = (if y mod k = 0 then 1 else 0)"
proof -
  define r where "r = y mod k"
  define q where "q = y div k"
  have y: "y = r + q * k" by (simp add: r_def q_def)
  have r: "0 \<le> r" "r < k" using assms by (simp_all add: r_def)
  show ?thesis
  proof (cases "r = 0")
    case True
    have e: "y - 1 = (k - 1) + (q - 1) * k" by (simp add: y True algebra_simps)
    have "(y - 1) div k = ((k - 1) + (q - 1) * k) div k" by (simp only: e)
    also have "\<dots> = q - 1"
      using assms by (intro div_offset) simp_all
    finally have "(y - 1) div k = q - 1" .
    with True show ?thesis by (simp add: q_def r_def)
  next
    case False
    have e: "y - 1 = (r - 1) + q * k" by (simp add: y)
    have "(y - 1) div k = ((r - 1) + q * k) div k" by (simp only: e)
    also have "\<dots> = q"
      using r False by (intro div_offset) simp_all
    finally have "(y - 1) div k = q" .
    with False show ?thesis by (simp add: q_def r_def)
  qed
qed

lemma year_difference:
  "((p::int) + 1) * 365 + a - b + c - (p * 365 + a' - b' + c') =
     365 + (a - a') - (b - b') + (c - c')"
  by (simp add: algebra_simps)

lemma leap_year_length:
  "days_before_year (y + 1) - days_before_year y = (if is_leap y then 366 else 365)"
proof -
  have d: "(100::int) dvd 400" "(4::int) dvd 100" by simp_all
  have i1: "y mod 400 = 0 \<Longrightarrow> y mod 100 = 0"
    unfolding mod_eq_0_iff_dvd using d(1) by (rule dvd_trans)
  have i2: "y mod 100 = 0 \<Longrightarrow> y mod 4 = 0"
    unfolding mod_eq_0_iff_dvd using d(2) by (rule dvd_trans)
  have "days_before_year (y + 1) - days_before_year y =
          365 + (y div 4 - (y - 1) div 4) - (y div 100 - (y - 1) div 100)
            + (y div 400 - (y - 1) div 400)"
    using year_difference [of "y - 1" "y div 4" "y div 100" "y div 400"
        "(y - 1) div 4" "(y - 1) div 100" "(y - 1) div 400"]
    by (simp only: days_before_year_def Let_def add_diff_cancel_right' diff_add_cancel)
  also have "\<dots> = 365 + (if y mod 4 = 0 then 1 else 0) - (if y mod 100 = 0 then 1 else 0)
                 + (if y mod 400 = 0 then 1 else 0)"
    by (simp only: div_step [of 4 y, simplified] div_step [of 100 y, simplified]
          div_step [of 400 y, simplified])
  also have "\<dots> = (if is_leap y then 366 else 365)"
  proof (cases "y mod 4 = 0")
    case False
    from False i2 have n100: "y mod 100 \<noteq> 0" by (rule contrapos_nn)
    from n100 i1 have "y mod 400 \<noteq> 0" by (rule contrapos_nn)
    note n100 this
    with False show ?thesis by (simp only: is_leap_def) simp
  next
    case c4: True
    show ?thesis
    proof (cases "y mod 100 = 0")
      case False
      from False i1 have "y mod 400 \<noteq> 0" by (rule contrapos_nn)
      with c4 False show ?thesis by (simp only: is_leap_def) simp
    next
      case c100: True
      show ?thesis
        by (cases "y mod 400 = 0") (simp_all only: is_leap_def c4 c100, simp_all)
    qed
  qed
  finally show ?thesis .
qed

lemma ordinal_step:
  assumes "1 \<le> m" "m \<le> 12"
  shows "ymd2ord (if m = 12 then y + 1 else y) (if m = 12 then 1 else m + 1) 1 - ymd2ord y m 1 =
         days_in_month y m"
proof (cases "m = 12")
  case True
  have "days_before_month (y + 1) 1 = 0" "days_before_month y 12 = 334 + (if is_leap y then 1 else 0)"
    by (simp_all add: days_before_month_def DAYS_IN_MONTH_def)
  with True leap_year_length [of y] show ?thesis
    by (simp add: ymd2ord_def days_in_month_def DAYS_IN_MONTH_def split: if_splits)
next
  case False
  with month_cases [OF assms] show ?thesis
    by (auto simp: ymd2ord_def days_in_month_def days_before_month_def DAYS_IN_MONTH_def)
qed

subsection \<open>Parsing a token\<close>

lemma char_code: "(of_char c :: nat) = of_char d \<longleftrightarrow> c = d"
  by simp

lemma digit_val_range: "is_digit c \<Longrightarrow> 0 \<le> digit_val c \<and> digit_val c \<le> 9"
  by (simp add: is_digit_def in_range_def digit_val_def)

lemma month_chars:
  assumes "is_digit m1" "is_digit m2"
    and "1 \<le> int_of_digits [m1, m2]" "int_of_digits [m1, m2] \<le> 12"
  shows "(m1 = CHR ''0'' \<and> in_range (CHR ''1'') (CHR ''9'') m2) \<or>
         (m1 = CHR ''1'' \<and> in_range (CHR ''0'') (CHR ''2'') m2)"
proof -
  from assms have "(of_char m1 :: nat) = 48 \<or> (of_char m1 :: nat) = 49"
    by (simp add: is_digit_def in_range_def int_of_digits_def digit_val_def) linarith
  then show ?thesis
  proof
    assume h: "(of_char m1 :: nat) = 48"
    then have "(of_char m1 :: nat) = of_char (CHR ''0'')" by simp
    then have "m1 = CHR ''0''" by (simp only: char_code)
    moreover from assms h have "in_range (CHR ''1'') (CHR ''9'') m2"
      by (simp add: is_digit_def in_range_def int_of_digits_def digit_val_def)
    ultimately show ?thesis by simp
  next
    assume h: "(of_char m1 :: nat) = 49"
    then have "(of_char m1 :: nat) = of_char (CHR ''1'')" by simp
    then have "m1 = CHR ''1''" by (simp only: char_code)
    moreover from assms h have "in_range (CHR ''0'') (CHR ''2'') m2"
      by (simp add: is_digit_def in_range_def int_of_digits_def digit_val_def)
    ultimately show ?thesis by simp
  qed
qed

lemma match_m_month:
  assumes "is_digit m1" "is_digit m2"
    and "1 \<le> int_of_digits [m1, m2]" "int_of_digits [m1, m2] \<le> 12"
  shows "concat (map (\<lambda>(gm, r3). concat (map (\<lambda>r4. map (\<lambda>(gd, r5). (gy, gm, gd, r5)) (match_d r4))
           (match_lit (CHR ''-'') r3))) (match_m (m1 # m2 # ''-01''))) = [(gy, [m1, m2], ''01'', [])]"
  using month_chars [OF assms] assms(2)
  by (auto simp: match_m_def match_d_def in_range_def is_digit_def)

lemma regex_period:
  assumes "is_digit a" "is_digit b" "is_digit c" "is_digit d"
    and "is_digit m1" "is_digit m2"
    and "1 \<le> int_of_digits [m1, m2]" "int_of_digits [m1, m2] \<le> 12"
  shows "regex_Ymd ([a, b, c, d, CHR ''-'', m1, m2] @ ''-01'') = [([a, b, c, d], [m1, m2], ''01'', [])]"
  using assms(1-4) match_m_month [OF assms(5-8)]
  by (simp add: regex_Ymd_def)


lemma digits4_range:
  assumes "is_digit a" "is_digit b" "is_digit c" "is_digit d"
  shows "0 \<le> int_of_digits [a, b, c, d] \<and> int_of_digits [a, b, c, d] \<le> 9999"
  using assms [THEN digit_val_range]
  by (simp add: int_of_digits_def)

lemma length7:
  assumes "length xs = 7"
  obtains a b c d h m1 m2 where "xs = [a, b, c, d, h, m1, m2]"
  using assms by (auto simp: numeral_eq_Suc length_Suc_conv)

lemma month_bounds_YYYY_MM:
  assumes "is_YYYY_MM tok" and "\<not> (period_year tok = 9999 \<and> period_month tok = 12)"
  shows "month_bounds tok =
           Inr (first_instant (period_year tok) (period_month tok),
                next_month (period_year tok) (period_month tok))"
proof -
  from assms(1) have "length tok = 7" by (simp add: is_YYYY_MM_def)
  then obtain a b c d h m1 m2 where tok: "tok = [a, b, c, d, h, m1, m2]"
    by (rule length7)
  from assms(1) have dg: "is_digit a" "is_digit b" "is_digit c" "is_digit d"
    and h: "h = CHR ''-''" and dm: "is_digit m1" "is_digit m2"
    by (simp_all add: is_YYYY_MM_def tok)
  have py: "period_year tok = int_of_digits [a, b, c, d]"
    and pm: "period_month tok = int_of_digits [m1, m2]"
    by (simp_all add: period_year_def period_month_def tok)
  from assms(1) have m: "1 \<le> int_of_digits [m1, m2]" "int_of_digits [m1, m2] \<le> 12"
    and y1: "1 \<le> int_of_digits [a, b, c, d]"
    by (simp_all add: is_YYYY_MM_def py [symmetric] pm [symmetric])
  have y2: "int_of_digits [a, b, c, d] \<le> 9999"
    using digits4_range [OF dg] by simp
  have rx: "regex_Ymd (tok @ ''-01'') = [([a, b, c, d], [m1, m2], ''01'', [])]"
    using regex_period [OF dg dm m] by (simp add: tok h)
  have d1: "int_of_digits (strip_space ''01'') = 1"
    by (simp add: int_of_digits_def strip_space_def digit_val_def)
  have sp: "strptime_Ymd (tok @ ''-01'') =
              Inr (first_instant (int_of_digits [a, b, c, d]) (int_of_digits [m1, m2]))"
    using y1 y2 m days_in_month_ge [OF m, of "int_of_digits [a, b, c, d]"]
    by (simp add: strptime_Ymd_def rx d1 datetime_new_def MINYEAR_def MAXYEAR_def
          first_instant_def)
  show ?thesis
  proof (cases "int_of_digits [m1, m2] = 12")
    case True
    with assms(2) y2 have "int_of_digits [a, b, c, d] + 1 \<le> 9999"
      by (simp add: py pm)
    with True y1 show ?thesis
      by (simp add: month_bounds_def sp py pm next_month_def first_instant_def replace_ymd_def
            datetime_new_def MINYEAR_def MAXYEAR_def days_in_month_def DAYS_IN_MONTH_def)
  next
    case False
    with m have m': "1 \<le> int_of_digits [m1, m2] + 1" "int_of_digits [m1, m2] + 1 \<le> 12"
      by simp_all
    from False y1 y2 m' days_in_month_ge [OF m', of "int_of_digits [a, b, c, d]"] show ?thesis
      by (simp add: month_bounds_def sp py pm next_month_def first_instant_def replace_ymd_def
            datetime_new_def MINYEAR_def MAXYEAR_def)
  qed
qed

lemma next_month_span:
  assumes "1 \<le> m" "m \<le> 12"
  shows "dt_sub (next_month y m) (first_instant y m) =
           \<lparr>days = days_in_month y m, seconds = 0, microseconds = 0\<rparr>"
  using ordinal_step [OF assms, of y]
  by (cases "m = 12") (simp_all add: dt_sub_def next_month_def first_instant_def timedelta_new_def)

subsection \<open>Evaluating the resolver on a given token\<close>

lemmas period_eval =
  month_bounds_def strptime_Ymd_def regex_Ymd_def match_m_def match_d_def is_digit_def
  in_range_def int_of_digits_def digit_val_def strip_space_def datetime_new_def replace_ymd_def
  MINYEAR_def MAXYEAR_def days_in_month_def DAYS_IN_MONTH_def is_leap_def

lemmas token_eval =
  is_YYYY_MM_def period_year_def period_month_def first_instant_def next_month_def

text \<open>
  C4, as amended. For every \<open>YYYY-MM\<close> token with a month from 01 to 12 and a year from
  0001, except \<open>9999-12\<close>, \<open>month_bounds\<close> returns the first instant of that month
  (day 1, 00:00:00) and the first instant of the following month, December of year Y
  giving 1 January of year Y + 1; the end minus the start is exactly the number of days
  of that calendar month.
\<close>

theorem month_bounds_spans_month:
  assumes "is_YYYY_MM tok" and "\<not> (period_year tok = 9999 \<and> period_month tok = 12)"
  shows "month_bounds tok =
           Inr (first_instant (period_year tok) (period_month tok),
                next_month (period_year tok) (period_month tok)) \<and>
         dt_sub (next_month (period_year tok) (period_month tok))
                (first_instant (period_year tok) (period_month tok)) =
           \<lparr>days = days_in_month (period_year tok) (period_month tok), seconds = 0,
            microseconds = 0\<rparr>"
proof -
  from assms(1) have "1 \<le> period_month tok" "period_month tok \<le> 12"
    by (simp_all add: is_YYYY_MM_def)
  then show ?thesis
    using month_bounds_YYYY_MM [OF assms] next_month_span by simp
qed

text \<open>The token \<open>2024-02\<close>: 1 February to 1 March 2024, 29 days.\<close>

theorem month_bounds_spans_month_witness:
  "is_YYYY_MM ''2024-02'' \<and>
   \<not> (period_year ''2024-02'' = 9999 \<and> period_month ''2024-02'' = 12) \<and>
   month_bounds ''2024-02'' = Inr (first_instant 2024 2, first_instant 2024 3) \<and>
   dt_sub (first_instant 2024 3) (first_instant 2024 2) =
     \<lparr>days = 29, seconds = 0, microseconds = 0\<rparr>"
  using month_bounds_spans_month [of "''2024-02''"]
  by (simp add: token_eval is_digit_def in_range_def int_of_digits_def digit_val_def
        days_in_month_def is_leap_def)

text \<open>
  C4 as stated fails at the last month Python's calendar has: \<open>9999-12\<close> is a
  well-formed token, its start is computed, and \<open>replace(year=10000, ...)\<close> raises a
  \<open>ValueError\<close> outside the \<open>try\<close> block, so no interval is returned.
\<close>

theorem month_bounds_last_month:
  "is_YYYY_MM ''9999-12'' \<and> month_bounds ''9999-12'' = Inl ValueError"
  by (simp add: token_eval period_eval)

text \<open>
  C5. A token that is not of the form \<open>YYYY-MM\<close> should be refused with the error
  \<open>Invalid period. Use YYYY-MM\<close>. The token \<open>2024-1\<close> is not of that form, and
  \<open>month_bounds\<close> accepts it: \<open>%m\<close> also matches a month written with one digit, and
  the token is resolved to January 2024.
\<close>

theorem month_bounds_one_digit_month:
  "\<not> is_YYYY_MM ''2024-1'' \<and>
   month_bounds ''2024-1'' = Inr (first_instant 2024 1, first_instant 2024 2)"
  by (simp add: token_eval period_eval)

text \<open>The malformed tokens of the specification, and the year 0000, are refused.\<close>

lemma month_bounds_malformed:
  "month_bounds ''2024-13'' = Inl (HTTPException 400 ''Invalid period. Use YYYY-MM'')"
  "month_bounds ''abcd'' = Inl (HTTPException 400 ''Invalid period. Use YYYY-MM'')"
  "month_bounds ''2024/01'' = Inl (HTTPException 400 ''Invalid period. Use YYYY-MM'')"
  "month_bounds ''0000-01'' = Inl (HTTPException 400 ''Invalid period. Use YYYY-MM'')"
  by (simp_all add: period_eval)

subsection \<open>Which tokens are refused\<close>

text \<open>What each matcher returns, as a condition on its input.\<close>

lemma match_Y_iff:
  "(g, r) \<in> set (match_Y s) \<longleftrightarrow>
     (\<exists>a b c d. s = a # b # c # d # r \<and> g = [a, b, c, d] \<and>
        is_digit a \<and> is_digit b \<and> is_digit c \<and> is_digit d)"
  by (cases s rule: match_Y.cases) auto

lemma match_lit_iff: "r \<in> set (match_lit x s) \<longleftrightarrow> s = x # r"
  by (cases s) auto

lemma match_two_iff:
  "(g, r) \<in> set (match_two p q s) \<longleftrightarrow> (\<exists>a b. s = a # b # r \<and> g = [a, b] \<and> p a \<and> q b)"
  by (cases "(p, q, s)" rule: match_two.cases) auto

lemma match_one_iff:
  "(g, r) \<in> set (match_one p s) \<longleftrightarrow> (\<exists>a. s = a # r \<and> g = [a] \<and> p a)"
  by (cases s) auto

lemma in_range_digit:
  assumes "in_range lo hi c" "is_digit lo" "is_digit hi"
  shows "is_digit c \<and> digit_val lo \<le> digit_val c \<and> digit_val c \<le> digit_val hi"
  using assms by (simp add: in_range_def is_digit_def digit_val_def)

lemma digit_chars:
  "is_digit (CHR ''0'')" "is_digit (CHR ''1'')" "is_digit (CHR ''2'')" "is_digit (CHR ''9'')"
  "digit_val (CHR ''0'') = 0" "digit_val (CHR ''1'') = 1" "digit_val (CHR ''2'') = 2"
  "digit_val (CHR ''9'') = 9"
  by (simp_all add: is_digit_def in_range_def digit_val_def)

lemma in_range_not_hyphen:
  assumes "in_range lo hi c" "is_digit lo" "is_digit hi"
  shows "c \<noteq> CHR ''-''"
  using assms by (auto simp: in_range_def is_digit_def)

lemma match_m_alternatives:
  assumes "(g, r) \<in> set (match_m s)"
  shows "(\<exists>a b. s = a # b # r \<and> g = [a, b] \<and> a = CHR ''1'' \<and> in_range (CHR ''0'') (CHR ''2'') b) \<or>
         (\<exists>a b. s = a # b # r \<and> g = [a, b] \<and> a = CHR ''0'' \<and> in_range (CHR ''1'') (CHR ''9'') b) \<or>
         (\<exists>a. s = a # r \<and> g = [a] \<and> in_range (CHR ''1'') (CHR ''9'') a)"
  using assms by (simp add: match_m_def match_two_iff match_one_iff)

lemma match_m_shape:
  assumes "(g, r) \<in> set (match_m s)"
  shows "s = g @ r \<and> (length g = 1 \<or> length g = 2) \<and> list_all is_digit g \<and>
         1 \<le> int_of_digits g \<and> int_of_digits g \<le> 12"
  using match_m_alternatives [OF assms]
proof (elim disjE exE conjE)
  fix a b
  assume h: "s = a # b # r" "g = [a, b]" "a = CHR ''1''" "in_range (CHR ''0'') (CHR ''2'') b"
  from in_range_digit [OF h(4)] h(1-3) show ?thesis
    by (simp add: digit_chars int_of_digits_def)
next
  fix a b
  assume h: "s = a # b # r" "g = [a, b]" "a = CHR ''0''" "in_range (CHR ''1'') (CHR ''9'') b"
  from in_range_digit [OF h(4)] h(1-3) show ?thesis
    by (simp add: digit_chars int_of_digits_def)
next
  fix a
  assume h: "s = a # r" "g = [a]" "in_range (CHR ''1'') (CHR ''9'') a"
  from in_range_digit [OF h(3)] h(1,2) show ?thesis
    by (simp add: digit_chars int_of_digits_def)
qed

lemma match_d_shape:
  assumes "(g, r) \<in> set (match_d s)"
  shows "s = g @ r \<and> ((\<exists>x. g = [x]) \<or> (\<exists>x y. g = [x, y]))"
  using assms by (auto simp: match_d_def match_two_iff match_one_iff)

lemma suffix3_eq:
  assumes "xs @ [a, b, c] = ys @ [d, e, f]"
  shows "xs = ys \<and> a = d \<and> b = e \<and> c = f"
  using assms by simp

lemma suffix3_neq:
  assumes "xs @ [a, b, c] = ys @ [d, e]"
  shows "b = d"
proof -
  from assms have "rev (xs @ [a, b, c]) = rev (ys @ [d, e])" by (rule arg_cong)
  then show ?thesis by simp
qed

text \<open>
  A match of the whole expression that uses up the string \<open>tok @ ''-01''\<close> ends in the
  day \<open>01\<close>: the token is the year, a hyphen and the month.
\<close>

lemma regex_Ymd_parts:
  assumes "(gy, gm, gd, rest) \<in> set (regex_Ymd s)"
  shows "\<exists>r1 r2 r3 r4. (gy, r1) \<in> set (match_Y s) \<and> r2 \<in> set (match_lit (CHR ''-'') r1) \<and>
           (gm, r3) \<in> set (match_m r2) \<and> r4 \<in> set (match_lit (CHR ''-'') r3) \<and>
           (gd, rest) \<in> set (match_d r4)"
  using assms unfolding regex_Ymd_def by fastforce

lemma regex_full_match:
  assumes "(gy, gm, gd, []) \<in> set (regex_Ymd (tok @ ''-01''))"
  shows "tok = gy @ CHR ''-'' # gm \<and> length gy = 4 \<and> list_all is_digit gy \<and>
         (length gm = 1 \<or> length gm = 2) \<and> list_all is_digit gm \<and>
         1 \<le> int_of_digits gm \<and> int_of_digits gm \<le> 12"
proof -
  from regex_Ymd_parts [OF assms] obtain r1 r2 r3 r4 where
    y: "(gy, r1) \<in> set (match_Y (tok @ ''-01''))" and
    l1: "r2 \<in> set (match_lit (CHR ''-'') r1)" and
    m: "(gm, r3) \<in> set (match_m r2)" and
    l2: "r4 \<in> set (match_lit (CHR ''-'') r3)" and
    d: "(gd, []) \<in> set (match_d r4)"
    by blast
  from y have sy: "tok @ ''-01'' = gy @ r1" and gy: "length gy = 4" "list_all is_digit gy"
    by (auto simp: match_Y_iff)
  from l1 have r1: "r1 = CHR ''-'' # r2" by (simp add: match_lit_iff)
  from match_m_shape [OF m] have r2: "r2 = gm @ r3"
    and gm: "length gm = 1 \<or> length gm = 2" "list_all is_digit gm"
      "1 \<le> int_of_digits gm" "int_of_digits gm \<le> 12"
    by simp_all
  from l2 have r3: "r3 = CHR ''-'' # r4" by (simp add: match_lit_iff)
  from match_d_shape [OF d] have r4: "r4 = gd"
    and gd: "(\<exists>x. gd = [x]) \<or> (\<exists>x y. gd = [x, y])"
    by simp_all
  have whole: "tok @ [CHR ''-'', CHR ''0'', CHR ''1''] = (gy @ CHR ''-'' # gm) @ CHR ''-'' # gd"
    using sy by (simp add: r1 r2 r3 r4)
  from gd have "tok = gy @ CHR ''-'' # gm"
  proof
    assume "\<exists>x. gd = [x]"
    then obtain x where "gd = [x]" ..
    with whole have "tok @ [CHR ''-'', CHR ''0'', CHR ''1''] = (gy @ CHR ''-'' # gm) @ [CHR ''-'', x]"
      by simp
    then have "CHR ''0'' = CHR ''-''" by (rule suffix3_neq)
    then show ?thesis by simp
  next
    assume "\<exists>x y. gd = [x, y]"
    then obtain x y where "gd = [x, y]" by blast
    with whole have "tok @ [CHR ''-'', CHR ''0'', CHR ''1''] =
        (gy @ CHR ''-'' # gm) @ [CHR ''-'', x, y]"
      by simp
    then show ?thesis by (rule suffix3_eq [THEN conjunct1])
  qed
  with gy gm show ?thesis by simp
qed

text \<open>
  Every token that \<open>strptime\<close> does not let through is refused with the error 400, and
  then the report stops before it reaches the store.
\<close>

lemma strptime_accepted_shape:
  assumes "strptime_Ymd (tok @ ''-01'') = Inr dt"
  shows "strptime_accepts tok"
proof -
  from assms obtain gy gm gd rest xs where
    rx: "regex_Ymd (tok @ ''-01'') = (gy, gm, gd, rest) # xs"
    by (auto simp: strptime_Ymd_def split: list.splits)
  from assms rx have rest: "rest = []"
    and new: "datetime_new (int_of_digits gy) (int_of_digits gm) (int_of_digits (strip_space gd))
                0 0 0 0 = Inr dt"
    by (auto simp: strptime_Ymd_def split: if_splits)
  from new have year: "1 \<le> int_of_digits gy"
    by (auto simp: datetime_new_def MINYEAR_def split: if_splits)
  from rx rest have "(gy, gm, gd, []) \<in> set (regex_Ymd (tok @ ''-01''))" by simp
  from regex_full_match [OF this] have tok: "tok = gy @ CHR ''-'' # gm"
    and gy: "length gy = 4" "list_all is_digit gy"
    and gm: "length gm = 1 \<or> length gm = 2" "list_all is_digit gm"
      "1 \<le> int_of_digits gm" "int_of_digits gm \<le> 12"
    by simp_all
  from gy(1) have parts: "take 4 tok = gy" "drop 5 tok = gm" "tok ! 4 = CHR ''-''"
    "length tok = 5 + length gm"
    by (simp_all add: tok nth_append)
  from gm(1) parts(4) have "length tok = 6 \<or> length tok = 7" by auto
  with gy gm year show ?thesis
    by (simp add: strptime_accepts_def parts(1-3) period_year_def period_month_def)
qed

lemma month_bounds_refuses:
  assumes "\<not> strptime_accepts tok"
  shows "month_bounds tok = Inl (HTTPException 400 ''Invalid period. Use YYYY-MM'')"
proof (cases "strptime_Ymd (tok @ ''-01'')")
  case (Inl e)
  then show ?thesis by (simp add: month_bounds_def)
next
  case (Inr dt)
  from strptime_accepted_shape [OF this] assms show ?thesis by simp
qed

lemma chargeback_report_refuses:
  assumes "\<not> strptime_accepts tok"
  shows "chargeback_report ops tok db =
           (Inl (HTTPException 400 ''Invalid period. Use YYYY-MM''), db)"
  using month_bounds_refuses [OF assms] by (rule chargeback_report_invalid)

text \<open>
  Conversely a token it lets through is parsed, so the refused tokens are exactly the
  others; and the tokens let through are those of the form \<open>YYYY-MM\<close> and those with a
  one-digit month.
\<close>

lemma length6:
  assumes "length xs = 6"
  obtains a b c d h m1 where "xs = [a, b, c, d, h, m1]"
  using assms by (auto simp: numeral_eq_Suc length_Suc_conv)

lemma regex_period_short:
  assumes "is_digit a" "is_digit b" "is_digit c" "is_digit d"
    and "is_digit m1" and "1 \<le> int_of_digits [m1]"
  shows "regex_Ymd ([a, b, c, d, CHR ''-'', m1] @ ''-01'') = [([a, b, c, d], [m1], ''01'', [])]"
proof -
  from assms(5,6) have "in_range (CHR ''1'') (CHR ''9'') m1" "m1 \<noteq> CHR ''0''" "m1 \<noteq> CHR ''1'' \<or> True"
    by (auto simp: is_digit_def in_range_def int_of_digits_def digit_val_def)
  with assms(1-4) show ?thesis
    by (simp add: regex_Ymd_def match_m_def match_d_def in_range_def is_digit_def)
qed

lemma strptime_accepts_parses:
  assumes "strptime_accepts tok"
  shows "strptime_Ymd (tok @ ''-01'') = Inr (first_instant (period_year tok) (period_month tok))"
proof -
  from assms have len: "length tok = 6 \<or> length tok = 7" by (simp add: strptime_accepts_def)
  then show ?thesis
  proof
    assume "length tok = 6"
    then obtain a b c d h m1 where tok: "tok = [a, b, c, d, h, m1]" by (rule length6)
    from assms have dg: "is_digit a" "is_digit b" "is_digit c" "is_digit d"
      and h: "h = CHR ''-''" and dm: "is_digit m1"
      by (simp_all add: strptime_accepts_def tok)
    have py: "period_year tok = int_of_digits [a, b, c, d]"
      and pm: "period_month tok = int_of_digits [m1]"
      by (simp_all add: period_year_def period_month_def tok)
    from assms have m: "1 \<le> int_of_digits [m1]" "int_of_digits [m1] \<le> 12"
      and y1: "1 \<le> int_of_digits [a, b, c, d]"
      by (simp_all add: strptime_accepts_def py [symmetric] pm [symmetric])
    have y2: "int_of_digits [a, b, c, d] \<le> 9999"
      using digits4_range [OF dg] by simp
    have rx: "regex_Ymd (tok @ ''-01'') = [([a, b, c, d], [m1], ''01'', [])]"
      using regex_period_short [OF dg dm m(1)] by (simp add: tok h)
    have d1: "int_of_digits (strip_space ''01'') = 1"
      by (simp add: int_of_digits_def strip_space_def digit_val_def)
    show ?thesis
      using y1 y2 m days_in_month_ge [OF m, of "int_of_digits [a, b, c, d]"]
      by (simp add: strptime_Ymd_def rx d1 datetime_new_def MINYEAR_def MAXYEAR_def
            first_instant_def py pm)
  next
    assume "length tok = 7"
    then obtain a b c d h m1 m2 where tok: "tok = [a, b, c, d, h, m1, m2]" by (rule length7)
    from assms have dg: "is_digit a" "is_digit b" "is_digit c" "is_digit d"
      and h: "h = CHR ''-''" and dm: "is_digit m1" "is_digit m2"
      by (simp_all add: strptime_accepts_def tok)
    have py: "period_year tok = int_of_digits [a, b, c, d]"
      and pm: "period_month tok = int_of_digits [m1, m2]"
      by (simp_all add: period_year_def period_month_def tok)
    from assms have m: "1 \<le> int_of_digits [m1, m2]" "int_of_digits [m1, m2] \<le> 12"
      and y1: "1 \<le> int_of_digits [a, b, c, d]"
      by (simp_all add: strptime_accepts_def py [symmetric] pm [symmetric])
    have y2: "int_of_digits [a, b, c, d] \<le> 9999"
      using digits4_range [OF dg] by simp
    have rx: "regex_Ymd (tok @ ''-01'') = [([a, b, c, d], [m1, m2], ''01'', [])]"
      using regex_period [OF dg dm m] by (simp add: tok h)
    have d1: "int_of_digits (strip_space ''01'') = 1"
      by (simp add: int_of_digits_def strip_space_def digit_val_def)
    show ?thesis
      using y1 y2 m days_in_month_ge [OF m, of "int_of_digits [a, b, c, d]"]
      by (simp add: strptime_Ymd_def rx d1 datetime_new_def MINYEAR_def MAXYEAR_def
            first_instant_def py pm)
  qed
qed

lemma month_bounds_refuses_iff:
  "month_bounds tok = Inl (HTTPException 400 ''Invalid period. Use YYYY-MM'') \<longleftrightarrow>
     \<not> strptime_accepts tok"
proof
  assume r: "month_bounds tok = Inl (HTTPException 400 ''Invalid period. Use YYYY-MM'')"
  show "\<not> strptime_accepts tok"
  proof
    assume "strptime_accepts tok"
    from strptime_accepts_parses [OF this] r show False
      by (auto simp: month_bounds_def replace_ymd_def datetime_new_def split: if_splits)
  qed
next
  assume "\<not> strptime_accepts tok"
  then show "month_bounds tok = Inl (HTTPException 400 ''Invalid period. Use YYYY-MM'')"
    by (rule month_bounds_refuses)
qed

lemma strptime_accepts_forms:
  "strptime_accepts tok \<longleftrightarrow>
     is_YYYY_MM tok \<or>
     (length tok = 6 \<and> list_all is_digit (take 4 tok) \<and> tok ! 4 = CHR ''-'' \<and>
      in_range (CHR ''1'') (CHR ''9'') (tok ! 5) \<and> 1 \<le> period_year tok)"
proof -
  have "length tok = 6 \<Longrightarrow>
          (list_all is_digit (drop 5 tok) \<and> 1 \<le> period_month tok \<and> period_month tok \<le> 12) =
          in_range (CHR ''1'') (CHR ''9'') (tok ! 5)"
    by (erule length6)
      (auto simp: period_month_def int_of_digits_def digit_val_def is_digit_def in_range_def)
  then show ?thesis
    by (auto simp: strptime_accepts_def is_YYYY_MM_def)
qed

section \<open>What the report computes, claim by claim\<close>

subsection \<open>The example, evaluated\<close>

lemma january: "month_bounds ''2024-01'' = Inr (first_instant 2024 1, first_instant 2024 2)"
  by (simp add: period_eval first_instant_def)

lemma demo_report:
  "chargeback_report exact_ops ''2024-01'' demo_db = (Inr demo_chargeback, demo_db_after)"
  by code_simp

lemma zero_laws_exact: "zero_laws exact_ops"
  by (simp add: zero_laws_def exact_ops_def round_half_even_def)

subsection \<open>From the report to its lines\<close>

lemma selected_eq:
  "filter (subscription_matches (active_filter end)) subs = selected end subs"
proof -
  have "subscription_matches (active_filter end) =
          (\<lambda>s. status s = ''active'' \<and> dt_le (start_date s) end)"
    by (rule ext) (simp add: active_filter_matches)
  then show ?thesis by (simp add: selected_def)
qed

lemma usage_count_eq:
  "int (length (filter (usage_matches (period_filter s start end)) events)) =
     usage_in_period s start end events"
proof -
  have "usage_matches (period_filter s start end) =
          (\<lambda>e. ue_api_id e = sub_api_id s \<and> ue_consumer_id e = sub_consumer_id s \<and>
               in_period start end (timestamp e))"
    by (rule ext) (auto simp: period_filter_matches in_period_def)
  then show ?thesis by (simp add: usage_in_period_def)
qed

lemma lines_related:
  assumes "month_bounds period = Inr (start, end)"
    and "\<And>s. s \<in> set (selected end (subscription_coll db)) \<Longrightarrow>
           P s (line_of ops (plans_dict (plan_coll db)) start end period (usageevent_coll db) s)"
  shows "\<exists>rep db'. chargeback_report ops period db = (Inr rep, db') \<and>
           list_all2 P (selected end (subscription_coll db)) (items rep)"
  using assms(2)
  by (simp add: chargeback_report_eq [OF assms(1)] selected_eq list_all2_map2 list_all2_same)

lemma the_report:
  assumes "\<exists>rep db'. chargeback_report ops period db = (Inr rep, db') \<and> Q rep"
    and "chargeback_report ops period db = (Inr r, d)"
  shows "Q r"
  using assms by auto

lemma month_bounds_ordered:
  assumes "month_bounds period = Inr (start, end)"
  shows "dt_lt start end"
  using assms
  by (auto simp: month_bounds_def replace_ymd_def datetime_new_def dt_lt_def dt_key_def
      split: sum.splits if_splits)

lemma dt_le_refl: "dt_le t t"
  by (simp add: dt_le_def dt_key_def)

lemma dt_lt_irrefl: "\<not> dt_lt t t"
  by (simp add: dt_lt_def dt_key_def)

subsection \<open>Overage and amount\<close>

text \<open>
  C1. For every selected subscription, with \<open>p\<close> its resolved plan (the zero-cost
  fallback when the plan is missing) and \<open>usage_count\<close> the number of its usage events
  in the period, the line has \<open>overage_calls = max(0, usage_count - included_calls)\<close>
  and \<open>amount = round(monthly_price + overage_calls * overage_price_per_call, 6)\<close>,
  whatever the floating-point operations compute.
\<close>

theorem chargeback_overage_and_amount:
  assumes "month_bounds period = Inr (start, end)"
  shows "\<exists>rep db'. chargeback_report ops period db = (Inr rep, db') \<and>
         list_all2
           (\<lambda>s l. let p = resolve_plan ops (plans_dict (plan_coll db)) (sub_plan_id s);
                      usage_count = usage_in_period s start end (usageevent_coll db)
                  in overage_calls l = max 0 (usage_count - included_calls p) \<and>
                     amount l =
                       round6 ops (fadd ops (monthly_price p)
                         (fmul ops (float_of_int ops (overage_calls l))
                            (overage_price_per_call p))))
           (selected end (subscription_coll db)) (items rep)"
  using assms by (rule lines_related) (simp add: line_of_def usage_count_eq Let_def)

text \<open>
  On the example: three calls against an allowance of two give one overage call and
  100 + 1 * 0.0005 = 100.0005.
\<close>

theorem chargeback_overage_and_amount_witness:
  "chargeback_report exact_ops ''2024-01'' demo_db = (Inr demo_chargeback, demo_db_after) \<and>
   month_bounds ''2024-01'' = Inr (first_instant 2024 1, first_instant 2024 2) \<and>
   list_all2
     (\<lambda>s l. let p = resolve_plan exact_ops (plans_dict (plan_coll demo_db)) (sub_plan_id s);
                usage_count = usage_in_period s (first_instant 2024 1) (first_instant 2024 2)
                                (usageevent_coll demo_db)
            in overage_calls l = max 0 (usage_count - included_calls p) \<and>
               amount l =
                 round6 exact_ops (fadd exact_ops (monthly_price p)
                   (fmul exact_ops (float_of_int exact_ops (overage_calls l))
                      (overage_price_per_call p))))
     (selected (first_instant 2024 2) (subscription_coll demo_db)) (items demo_chargeback) \<and>
   map overage_calls (items demo_chargeback) = [1, 0, 2, 0] \<and>
   map amount (items demo_chargeback) = [1000005 / 10000, 123457 / 1000000, 0, 100]"
proof -
  note rule =
    the_report [OF chargeback_overage_and_amount [OF january, where ops = exact_ops and db = demo_db] demo_report]
  have vals: "map overage_calls (items demo_chargeback) = [1, 0, 2, 0]"
    "map amount (items demo_chargeback) = [1000005 / 10000, 123457 / 1000000, 0, 100]"
    by (simp_all add: demo_chargeback_def demo_line_def)
  show ?thesis
    by (intro conjI demo_report january rule vals)
qed

subsection \<open>The missing plan\<close>

text \<open>
  C2. Whatever the stored plans are, a report for a resolvable period is produced; and
  in it, the line of a subscription whose \<open>plan_id\<close> is not the id of any stored plan
  has the amount \<open>0.0\<close>, the true usage count as \<open>calls\<close>, and the subscription's
  \<open>plan_id\<close> as it is.
\<close>

theorem chargeback_missing_plan:
  assumes "zero_laws ops" and "month_bounds period = Inr (start, end)"
  shows "\<exists>rep db'. chargeback_report ops period db = (Inr rep, db') \<and>
           list_all2
             (\<lambda>s l. sub_plan_id s \<notin> fst ` set (plan_coll db) \<longrightarrow>
                    amount l = float_of_int ops 0 \<and>
                    calls l = usage_in_period s start end (usageevent_coll db) \<and>
                    cb_plan_id l = sub_plan_id s)
             (selected end (subscription_coll db)) (items rep)"
  using assms(2)
  by (rule lines_related)
    (use assms(1) in \<open>simp add: line_of_def Let_def usage_count_eq resolve_plan_def
       fallback_plan_def plans_dict_None [symmetric] zero_laws_def\<close>)

text \<open>On the example: the plan \<open>gone\<close> is not stored; its line has two calls and amount 0.\<close>

theorem chargeback_missing_plan_witness:
  "zero_laws exact_ops \<and>
   month_bounds ''2024-01'' = Inr (first_instant 2024 1, first_instant 2024 2) \<and>
   (\<exists>rep db'. chargeback_report exact_ops ''2024-01'' demo_db = (Inr rep, db') \<and>
      list_all2
        (\<lambda>s l. sub_plan_id s \<notin> fst ` set (plan_coll demo_db) \<longrightarrow>
               amount l = float_of_int exact_ops 0 \<and>
               calls l = usage_in_period s (first_instant 2024 1) (first_instant 2024 2)
                           (usageevent_coll demo_db) \<and>
               cb_plan_id l = sub_plan_id s)
        (selected (first_instant 2024 2) (subscription_coll demo_db)) (items rep)) \<and>
   chargeback_report exact_ops ''2024-01'' demo_db = (Inr demo_chargeback, demo_db_after) \<and>
   map fst (plan_coll demo_db) = [''p1'', ''p2''] \<and>
   items demo_chargeback ! 2 = demo_line ''c3'' ''gone'' 2 2 0"
proof -
  note rule = chargeback_missing_plan [OF zero_laws_exact january, of demo_db]
  have vals: "map fst (plan_coll demo_db) = [''p1'', ''p2'']"
    "items demo_chargeback ! 2 = demo_line ''c3'' ''gone'' 2 2 0"
    by (simp_all add: demo_db_def demo_chargeback_def)
  show ?thesis
    by (intro conjI zero_laws_exact demo_report january rule vals)
qed

subsection \<open>Which subscriptions get a line\<close>

text \<open>
  C3. The lines of the report are, in order and one for one, the subscriptions whose
  status is \<open>active\<close> and whose \<open>start_date\<close> is at most the end of the period; each
  line carries the consumer, API and plan of its subscription and the period token. A
  subscription with another status, or one that starts after the end, has no line.
\<close>

theorem chargeback_one_line_per_selected:
  assumes "month_bounds period = Inr (start, end)"
  shows "\<exists>rep db'. chargeback_report ops period db = (Inr rep, db') \<and>
         list_all2
           (\<lambda>s l. cb_consumer_id l = sub_consumer_id s \<and> cb_api_id l = sub_api_id s \<and>
                  cb_plan_id l = sub_plan_id s \<and> cb_period l = period)
           (selected end (subscription_coll db)) (items rep)"
  using assms by (rule lines_related) (simp add: line_of_def Let_def)

text \<open>
  On the example: the paused subscription and the one starting a microsecond after the
  end have no line; the one starting exactly at the end has one.
\<close>

theorem chargeback_one_line_per_selected_witness:
  "chargeback_report exact_ops ''2024-01'' demo_db = (Inr demo_chargeback, demo_db_after) \<and>
   month_bounds ''2024-01'' = Inr (first_instant 2024 1, first_instant 2024 2) \<and>
   list_all2
     (\<lambda>s l. cb_consumer_id l = sub_consumer_id s \<and> cb_api_id l = sub_api_id s \<and>
            cb_plan_id l = sub_plan_id s \<and> cb_period l = ''2024-01'')
     (selected (first_instant 2024 2) (subscription_coll demo_db)) (items demo_chargeback) \<and>
   map status (subscription_coll demo_db) =
     [''active'', ''active'', ''active'', ''paused'', ''active'', ''active''] \<and>
   map start_date (subscription_coll demo_db) =
     [moment 2023 6 15 9 30 0 0, moment 2024 1 20 0 0 0 0, moment 2023 1 1 0 0 0 0,
      moment 2023 1 1 0 0 0 0, moment 2024 2 1 0 0 0 0, moment 2024 2 1 0 0 0 1] \<and>
   map cb_consumer_id (items demo_chargeback) = [''c1'', ''c2'', ''c3'', ''c5'']"
proof -
  note rule =
    the_report [OF chargeback_one_line_per_selected [OF january, where ops = exact_ops and db = demo_db] demo_report]
  have vals:
    "map status (subscription_coll demo_db) =
       [''active'', ''active'', ''active'', ''paused'', ''active'', ''active'']"
    "map start_date (subscription_coll demo_db) =
       [moment 2023 6 15 9 30 0 0, moment 2024 1 20 0 0 0 0, moment 2023 1 1 0 0 0 0,
        moment 2023 1 1 0 0 0 0, moment 2024 2 1 0 0 0 0, moment 2024 2 1 0 0 0 1]"
    "map cb_consumer_id (items demo_chargeback) = [''c1'', ''c2'', ''c3'', ''c5'']"
    by (simp_all add: demo_db_def demo_sub_def demo_chargeback_def demo_line_def)
  show ?thesis
    by (intro conjI demo_report january rule vals)
qed

subsection \<open>Which events are counted\<close>

text \<open>
  C6. The \<open>calls\<close> of a line is the number of usage events with the subscription's API
  and consumer whose timestamp lies in \<open>[start, end)\<close>; the start of the period lies in
  the interval and its end does not.
\<close>

theorem chargeback_counts_half_open:
  assumes "month_bounds period = Inr (start, end)"
  shows "(\<exists>rep db'. chargeback_report ops period db = (Inr rep, db') \<and>
            list_all2 (\<lambda>s l. calls l = usage_in_period s start end (usageevent_coll db))
              (selected end (subscription_coll db)) (items rep)) \<and>
         in_period start end start \<and> \<not> in_period start end end"
proof -
  have "\<exists>rep db'. chargeback_report ops period db = (Inr rep, db') \<and>
          list_all2 (\<lambda>s l. calls l = usage_in_period s start end (usageevent_coll db))
            (selected end (subscription_coll db)) (items rep)"
    using assms by (rule lines_related) (simp add: line_of_def usage_count_eq Let_def)
  moreover have "in_period start end start"
    using month_bounds_ordered [OF assms] by (simp add: in_period_def dt_le_refl)
  moreover have "\<not> in_period start end end"
    by (simp add: in_period_def dt_lt_irrefl)
  ultimately show ?thesis by simp
qed

text \<open>
  On the example: of the five events of consumer \<open>c1\<close>, the one at the start and the
  two inside January count; the one just before the start and the one exactly at the
  end do not.
\<close>

theorem chargeback_counts_half_open_witness:
  "chargeback_report exact_ops ''2024-01'' demo_db = (Inr demo_chargeback, demo_db_after) \<and>
   month_bounds ''2024-01'' = Inr (first_instant 2024 1, first_instant 2024 2) \<and>
   list_all2
     (\<lambda>s l. calls l = usage_in_period s (first_instant 2024 1) (first_instant 2024 2)
                         (usageevent_coll demo_db))
     (selected (first_instant 2024 2) (subscription_coll demo_db)) (items demo_chargeback) \<and>
   in_period (first_instant 2024 1) (first_instant 2024 2) (first_instant 2024 1) \<and>
   \<not> in_period (first_instant 2024 1) (first_instant 2024 2) (first_instant 2024 2) \<and>
   map timestamp (filter (\<lambda>e. ue_consumer_id e = ''c1'') (usageevent_coll demo_db)) =
     [moment 2023 12 31 23 59 59 999999, moment 2024 1 1 0 0 0 0, moment 2024 1 10 12 0 0 0,
      moment 2024 1 31 23 59 59 999999, moment 2024 2 1 0 0 0 0] \<and>
   map calls (items demo_chargeback) = [3, 0, 2, 0]"
proof -
  note rule = chargeback_counts_half_open [OF january, where ops = exact_ops and db = demo_db]
  note lines = the_report [OF rule [THEN conjunct1] demo_report]
  have vals:
    "map timestamp (filter (\<lambda>e. ue_consumer_id e = ''c1'') (usageevent_coll demo_db)) =
       [moment 2023 12 31 23 59 59 999999, moment 2024 1 1 0 0 0 0, moment 2024 1 10 12 0 0 0,
        moment 2024 1 31 23 59 59 999999, moment 2024 2 1 0 0 0 0]"
    "map calls (items demo_chargeback) = [3, 0, 2, 0]"
    by (simp_all add: demo_db_def demo_event_def demo_chargeback_def demo_line_def)
  show ?thesis
    by (intro conjI demo_report january lines vals rule [THEN conjunct2, THEN conjunct1]
          rule [THEN conjunct2, THEN conjunct2])
qed

subsection \<open>No usage\<close>

text \<open>
  C7, as amended. For every selected subscription with no usage event in the period and
  a resolved plan \<open>p\<close> with a non-negative allowance, the line has \<open>overage_calls = 0\<close>
  and \<open>amount = round(monthly_price + 0 * overage_price_per_call, 6)\<close>, in the
  program's own arithmetic. Whenever that sum is the monthly price, the amount is
  \<open>round(monthly_price, 6)\<close>; and whenever, in addition, rounding to 6 decimals leaves
  the monthly price as it is, the amount is the monthly price.
\<close>

theorem chargeback_zero_usage:
  assumes "month_bounds period = Inr (start, end)"
  shows "\<exists>rep db'. chargeback_report ops period db = (Inr rep, db') \<and>
         list_all2
           (\<lambda>s l. let p = resolve_plan ops (plans_dict (plan_coll db)) (sub_plan_id s);
                      base = fadd ops (monthly_price p)
                               (fmul ops (float_of_int ops 0) (overage_price_per_call p))
                  in usage_in_period s start end (usageevent_coll db) = 0 \<longrightarrow>
                     0 \<le> included_calls p \<longrightarrow>
                     overage_calls l = 0 \<and>
                     amount l = round6 ops base \<and>
                     (base = monthly_price p \<longrightarrow> amount l = round6 ops (monthly_price p)) \<and>
                     (base = monthly_price p \<longrightarrow> round6 ops (monthly_price p) = monthly_price p \<longrightarrow>
                      amount l = monthly_price p))
           (selected end (subscription_coll db)) (items rep)"
  using assms by (rule lines_related) (simp add: line_of_def usage_count_eq Let_def)

text \<open>
  On the example: the subscription of \<open>c5\<close> has no usage; its plan costs 100 a month
  with an allowance of 2, the sum 100 + 0 * 0.0005 is 100, rounding leaves 100 as it is,
  and the line is charged 100.
\<close>

theorem chargeback_zero_usage_witness:
  "chargeback_report exact_ops ''2024-01'' demo_db = (Inr demo_chargeback, demo_db_after) \<and>
   month_bounds ''2024-01'' = Inr (first_instant 2024 1, first_instant 2024 2) \<and>
   list_all2
     (\<lambda>s l. let p = resolve_plan exact_ops (plans_dict (plan_coll demo_db)) (sub_plan_id s);
                base = fadd exact_ops (monthly_price p)
                         (fmul exact_ops (float_of_int exact_ops 0) (overage_price_per_call p))
            in usage_in_period s (first_instant 2024 1) (first_instant 2024 2)
                 (usageevent_coll demo_db) = 0 \<longrightarrow>
               0 \<le> included_calls p \<longrightarrow>
               overage_calls l = 0 \<and>
               amount l = round6 exact_ops base \<and>
               (base = monthly_price p \<longrightarrow> amount l = round6 exact_ops (monthly_price p)) \<and>
               (base = monthly_price p \<longrightarrow>
                round6 exact_ops (monthly_price p) = monthly_price p \<longrightarrow>
                amount l = monthly_price p))
     (selected (first_instant 2024 2) (subscription_coll demo_db)) (items demo_chargeback) \<and>
   selected (first_instant 2024 2) (subscription_coll demo_db) ! 3 =
     demo_sub ''c5'' ''p1'' (moment 2024 2 1 0 0 0 0) ''active'' \<and>
   usage_in_period (demo_sub ''c5'' ''p1'' (moment 2024 2 1 0 0 0 0) ''active'')
     (first_instant 2024 1) (first_instant 2024 2) (usageevent_coll demo_db) = 0 \<and>
   resolve_plan exact_ops (plans_dict (plan_coll demo_db)) ''p1'' =
     \<lparr>plan_name = ''Basic'', tier = ''basic'', monthly_price = 100, included_calls = 2,
      overage_price_per_call = 5 / 10000\<rparr> \<and>
   fadd exact_ops 100 (fmul exact_ops (float_of_int exact_ops 0) (5 / 10000)) = 100 \<and>
   round6 exact_ops 100 = 100 \<and>
   items demo_chargeback ! 3 = demo_line ''c5'' ''p1'' 0 0 100"
proof -
  note rule =
    the_report [OF chargeback_zero_usage [OF january, where ops = exact_ops and db = demo_db] demo_report]
  have sel: "selected (first_instant 2024 2) (subscription_coll demo_db) ! 3 =
               demo_sub ''c5'' ''p1'' (moment 2024 2 1 0 0 0 0) ''active''"
    by (simp add: selected_def demo_db_def demo_sub_def moment_def first_instant_def dt_le_def
          dt_key_def)
  have use: "usage_in_period (demo_sub ''c5'' ''p1'' (moment 2024 2 1 0 0 0 0) ''active'')
               (first_instant 2024 1) (first_instant 2024 2) (usageevent_coll demo_db) = 0"
    by (simp add: usage_in_period_def demo_db_def demo_sub_def demo_event_def)
  have plan: "resolve_plan exact_ops (plans_dict (plan_coll demo_db)) ''p1'' =
                \<lparr>plan_name = ''Basic'', tier = ''basic'', monthly_price = 100, included_calls = 2,
                 overage_price_per_call = 5 / 10000\<rparr>"
    by (simp add: resolve_plan_def plans_dict_def demo_db_def)
  have sum: "fadd exact_ops 100 (fmul exact_ops (float_of_int exact_ops 0) (5 / 10000)) = 100"
    by (simp add: exact_ops_def)
  have rnd: "round6 exact_ops 100 = 100"
    by (simp add: exact_ops_def round_half_even_def)
  have vals: "items demo_chargeback ! 3 = demo_line ''c5'' ''p1'' 0 0 100"
    by (simp add: demo_chargeback_def)
  show ?thesis
    by (intro conjI demo_report january rule sel use plan sum rnd vals)
qed

text \<open>
  C7 as stated fails when the monthly price has more than six decimals: the
  subscription of \<open>c2\<close> has no usage, its plan costs 0.1234567 a month, and the line
  reports 0.123457.
\<close>

theorem chargeback_zero_usage_rounded:
  "chargeback_report exact_ops ''2024-01'' demo_db = (Inr demo_chargeback, demo_db_after) \<and>
   subscription_coll demo_db ! 1 = demo_sub ''c2'' ''p2'' (moment 2024 1 20 0 0 0 0) ''active'' \<and>
   usage_in_period (demo_sub ''c2'' ''p2'' (moment 2024 1 20 0 0 0 0) ''active'')
     (first_instant 2024 1) (first_instant 2024 2) (usageevent_coll demo_db) = 0 \<and>
   monthly_price (resolve_plan exact_ops (plans_dict (plan_coll demo_db)) ''p2'') =
     1234567 / 10000000 \<and>
   items demo_chargeback ! 1 = demo_line ''c2'' ''p2'' 0 0 (123457 / 1000000) \<and>
   amount (items demo_chargeback ! 1) \<noteq>
     monthly_price (resolve_plan exact_ops (plans_dict (plan_coll demo_db)) ''p2'')"
proof -
  have a: "subscription_coll demo_db ! 1 =
             demo_sub ''c2'' ''p2'' (moment 2024 1 20 0 0 0 0) ''active''"
    by (simp add: demo_db_def)
  have b: "usage_in_period (demo_sub ''c2'' ''p2'' (moment 2024 1 20 0 0 0 0) ''active'')
             (first_instant 2024 1) (first_instant 2024 2) (usageevent_coll demo_db) = 0"
    by (simp add: usage_in_period_def demo_db_def demo_sub_def demo_event_def)
  have c: "monthly_price (resolve_plan exact_ops (plans_dict (plan_coll demo_db)) ''p2'') =
             1234567 / 10000000"
    by (simp add: resolve_plan_def plans_dict_def demo_db_def)
  have d: "items demo_chargeback ! 1 = demo_line ''c2'' ''p2'' 0 0 (123457 / 1000000)"
    by (simp add: demo_chargeback_def)
  have e: "amount (items demo_chargeback ! 1) \<noteq>
             monthly_price (resolve_plan exact_ops (plans_dict (plan_coll demo_db)) ''p2'')"
    by (simp only: c d) (simp add: demo_line_def)
  show ?thesis
    by (intro conjI demo_report a b c d e)
qed

subsection \<open>Overage never exceeds the calls\<close>

text \<open>
  C9. Every line whose resolved plan has a non-negative allowance satisfies
  \<open>0 \<le> overage_calls \<le> calls\<close>.
\<close>

theorem chargeback_overage_bounded:
  assumes "month_bounds period = Inr (start, end)"
  shows "\<exists>rep db'. chargeback_report ops period db = (Inr rep, db') \<and>
         list_all2
           (\<lambda>s l. 0 \<le> included_calls (resolve_plan ops (plans_dict (plan_coll db)) (sub_plan_id s))
                  \<longrightarrow> 0 \<le> overage_calls l \<and> overage_calls l \<le> calls l)
           (selected end (subscription_coll db)) (items rep)"
  using assms by (rule lines_related) (simp add: line_of_def Let_def)

text \<open>On the example: allowances 2 and 10000 (and 0 for the fallback).\<close>

theorem chargeback_overage_bounded_witness:
  "chargeback_report exact_ops ''2024-01'' demo_db = (Inr demo_chargeback, demo_db_after) \<and>
   month_bounds ''2024-01'' = Inr (first_instant 2024 1, first_instant 2024 2) \<and>
   list_all2
     (\<lambda>s l. 0 \<le> included_calls
                    (resolve_plan exact_ops (plans_dict (plan_coll demo_db)) (sub_plan_id s))
            \<longrightarrow> 0 \<le> overage_calls l \<and> overage_calls l \<le> calls l)
     (selected (first_instant 2024 2) (subscription_coll demo_db)) (items demo_chargeback) \<and>
   map (included_calls \<circ> snd) (plan_coll demo_db) = [2, 10000] \<and>
   map overage_calls (items demo_chargeback) = [1, 0, 2, 0] \<and>
   map calls (items demo_chargeback) = [3, 0, 2, 0]"
proof -
  note rule =
    the_report [OF chargeback_overage_bounded [OF january, where ops = exact_ops and db = demo_db] demo_report]
  have vals:
    "map (included_calls \<circ> snd) (plan_coll demo_db) = [2, 10000]"
    "map overage_calls (items demo_chargeback) = [1, 0, 2, 0]"
    "map calls (items demo_chargeback) = [3, 0, 2, 0]"
    by (simp_all add: demo_db_def demo_chargeback_def demo_line_def)
  show ?thesis
    by (intro conjI demo_report january rule vals)
qed

subsection \<open>The store is only read\<close>

text \<open>
  C10. Whatever the report returns, the five collections are afterwards what they were,
  and the operations it has added to the log are only \<open>find\<close> on the plans, \<open>find\<close> on
  the subscriptions and \<open>count_documents\<close> on the usage events.
\<close>

theorem chargeback_report_read_only:
  assumes "chargeback_report ops period db = (r, db')"
  shows "apiservice_coll db' = apiservice_coll db \<and> plan_coll db' = plan_coll db \<and>
         consumer_coll db' = consumer_coll db \<and> subscription_coll db' = subscription_coll db \<and>
         usageevent_coll db' = usageevent_coll db \<and>
         (\<exists>acc. oplog db' = oplog db @ acc \<and>
                set acc \<subseteq> {Find Plan, Find Subscription, CountDocuments Usageevent})"
proof (cases "month_bounds period")
  case (Inl e)
  with assms have "db' = db" by (simp add: chargeback_report_invalid)
  then show ?thesis by simp
next
  case (Inr b)
  obtain start "end" where "b = (start, end)" by (cases b)
  with Inr assms show ?thesis
    by (auto simp: chargeback_report_eq)
qed

text \<open>On the example: two finds and one count for each of the four selected subscriptions.\<close>

theorem chargeback_report_read_only_witness:
  "chargeback_report exact_ops ''2024-01'' demo_db = (Inr demo_chargeback, demo_db_after) \<and>
   apiservice_coll demo_db_after = apiservice_coll demo_db \<and>
   plan_coll demo_db_after = plan_coll demo_db \<and>
   consumer_coll demo_db_after = consumer_coll demo_db \<and>
   subscription_coll demo_db_after = subscription_coll demo_db \<and>
   usageevent_coll demo_db_after = usageevent_coll demo_db \<and>
   (\<exists>acc. oplog demo_db_after = oplog demo_db @ acc \<and>
          set acc \<subseteq> {Find Plan, Find Subscription, CountDocuments Usageevent}) \<and>
   oplog demo_db = [] \<and>
   oplog demo_db_after =
     [Find Plan, Find Subscription, CountDocuments Usageevent, CountDocuments Usageevent,
      CountDocuments Usageevent, CountDocuments Usageevent]"
proof -
  note rule = chargeback_report_read_only [OF demo_report]
  have vals: "oplog demo_db = []"
    "oplog demo_db_after =
       [Find Plan, Find Subscription, CountDocuments Usageevent, CountDocuments Usageevent,
        CountDocuments Usageevent, CountDocuments Usageevent]"
    by (simp_all add: demo_db_def demo_db_after_def)
  from rule show ?thesis
    by (intro conjI demo_report vals) simp_all
qed

section \<open>What the metrics overview computes\<close>

lemma success_count:
  "sum_list (map (\<lambda>e. if status_code e < 400 then 1 else 0) es) =
     int (length (filter (\<lambda>e. status_code e < 400) es))"
  by (induction es) simp_all

lemma mongo_avg_latencies:
  "mongo_avg ops (map latency_ms es) =
     (if latencies es = [] then None
      else Some (truediv ops (sum_list (latencies es)) (int (length (latencies es)))))"
proof -
  have "mongo_avg ops (map latency_ms es) =
          (case latencies es of
             [] \<Rightarrow> None
           | v # vs \<Rightarrow> Some (truediv ops (sum_list (v # vs)) (int (length (v # vs)))))"
    by (simp add: mongo_avg_def latencies_def comp_def)
  then show ?thesis
    by (cases "latencies es") simp_all
qed

lemma metrics_overview_eq:
  assumes "overview_filter period = Inr filt"
  shows "metrics_overview ops period db =
     (let matched = filter (usage_matches filt) (usageevent_coll db)
      in (Inr \<lparr>total_calls = int (length matched),
               avg_latency_ms = (if matched = [] then None else mongo_avg ops (map latency_ms matched)),
               success_rate =
                 (if matched = [] then None
                  else Some (truediv ops
                         (sum_list (map (\<lambda>e. if status_code e < 400 then 1 else 0) matched))
                         (int (length matched)))),
               apis = int (length (apiservice_coll db)),
               consumers = int (length (consumer_coll db)),
               active_subscriptions =
                 int (length (filter (subscription_matches
                                \<lparr>q_status = Some ''active'', q_start_date = []\<rparr>)
                        (subscription_coll db)))\<rparr>,
          db\<lparr>oplog := oplog db @ [CountDocuments Usageevent, Aggregate Usageevent,
                                   CountDocuments Apiservice, CountDocuments Consumer,
                                   CountDocuments Subscription]\<rparr>))"
  using assms
  by (simp add: metrics_overview_def count_usageevent_def aggregate_usageevent_def
        count_apiservice_def count_consumer_def count_subscription_def logged_def Let_def)

text \<open>
  C8. For a period parameter that resolves (or is absent), the overview is produced, and
  with \<open>matched\<close> the usage events matching the filter: \<open>total_calls\<close> is their number;
  when there is none, \<open>success_rate\<close> and \<open>avg_latency_ms\<close> are null; when there are
  some, \<open>success_rate\<close> is the number of those with \<open>status_code < 400\<close> divided by
  \<open>total_calls\<close>; and \<open>avg_latency_ms\<close> is the sum of the non-null latencies divided by
  their number, null when no matching event carries a latency.
\<close>

theorem overview_rate_and_latency:
  assumes "overview_filter period = Inr filt"
  shows "\<exists>ov db'. metrics_overview ops period db = (Inr ov, db') \<and>
           (let matched = filter (usage_matches filt) (usageevent_coll db);
                lats = latencies matched
            in total_calls ov = int (length matched) \<and>
               (matched = [] \<longrightarrow> success_rate ov = None \<and> avg_latency_ms ov = None) \<and>
               (matched \<noteq> [] \<longrightarrow>
                  success_rate ov =
                    Some (truediv ops (int (length (filter (\<lambda>e. status_code e < 400) matched)))
                            (int (length matched)))) \<and>
               avg_latency_ms ov =
                 (if lats = [] then None
                  else Some (truediv ops (sum_list lats) (int (length lats)))))"
proof -
  have "latencies [] = []" by (simp add: latencies_def)
  then show ?thesis
    by (simp add: metrics_overview_eq [OF assms] Let_def success_count mongo_avg_latencies)
qed

text \<open>The filter matches every event without a period, and the events of the period with one.\<close>

lemma overview_filter_matches:
  assumes "overview_filter period = Inr filt"
  shows "usage_matches filt e \<longleftrightarrow>
           (case period of
              None \<Rightarrow> True
            | Some p \<Rightarrow>
                p = [] \<or>
                (\<exists>start end. month_bounds p = Inr (start, end) \<and>
                   in_period start end (timestamp e)))"
  using assms
  by (auto simp: overview_filter_def no_filter_def usage_matches_def field_eq_def in_period_def
      split: option.splits if_splits sum.splits)

lemma january_filter:
  "overview_filter (Some ''2024-01'') =
     Inr \<lparr>q_consumer_id = None, q_api_id = None,
          q_timestamp = [Gte (first_instant 2024 1), Lt (first_instant 2024 2)]\<rparr>"
  by (simp add: overview_filter_def january)

lemma demo_overview_eval:
  "metrics_overview exact_ops (Some ''2024-01'') demo_db = (Inr demo_overview, demo_db_overviewed)"
  by code_simp

lemma empty_overview_eval:
  "metrics_overview exact_ops (Some ''2023-01'') demo_db = (Inr empty_overview, demo_db_overviewed)"
  by code_simp

text \<open>
  On the example: five events in January 2024, three of them successful, latencies 10,
  20 and 30; no event in January 2023.
\<close>

theorem overview_rate_and_latency_witness:
  "overview_filter (Some ''2024-01'') =
     Inr \<lparr>q_consumer_id = None, q_api_id = None,
          q_timestamp = [Gte (first_instant 2024 1), Lt (first_instant 2024 2)]\<rparr> \<and>
   (\<exists>ov db'. metrics_overview exact_ops (Some ''2024-01'') demo_db = (Inr ov, db') \<and>
      (let matched =
             filter (usage_matches
                       \<lparr>q_consumer_id = None, q_api_id = None,
                        q_timestamp = [Gte (first_instant 2024 1), Lt (first_instant 2024 2)]\<rparr>)
               (usageevent_coll demo_db);
           lats = latencies matched
       in total_calls ov = int (length matched) \<and>
          (matched = [] \<longrightarrow> success_rate ov = None \<and> avg_latency_ms ov = None) \<and>
          (matched \<noteq> [] \<longrightarrow>
             success_rate ov =
               Some (truediv exact_ops
                       (int (length (filter (\<lambda>e. status_code e < 400) matched)))
                       (int (length matched)))) \<and>
          avg_latency_ms ov =
            (if lats = [] then None
             else Some (truediv exact_ops (sum_list lats) (int (length lats)))))) \<and>
   metrics_overview exact_ops (Some ''2024-01'') demo_db = (Inr demo_overview, demo_db_overviewed) \<and>
   success_rate demo_overview = Some (3 / 5) \<and> avg_latency_ms demo_overview = Some 20 \<and>
   metrics_overview exact_ops (Some ''2023-01'') demo_db = (Inr empty_overview, demo_db_overviewed) \<and>
   success_rate empty_overview = None \<and> avg_latency_ms empty_overview = None"
proof -
  note rule = overview_rate_and_latency [OF january_filter, of exact_ops demo_db]
  have vals: "success_rate demo_overview = Some (3 / 5)" "avg_latency_ms demo_overview = Some 20"
    "success_rate empty_overview = None" "avg_latency_ms empty_overview = None"
    by (simp_all add: demo_overview_def empty_overview_def)
  show ?thesis
    by (intro conjI january_filter rule demo_overview_eval empty_overview_eval vals)
qed

end
